theory Spec2Isabelle
  imports Main "HOL-Library.Sublist"
begin

section \<open>The data of \<^verbatim>\<open>lib/monomers.js\<close>\<close>

text \<open>
  The engine of \<^verbatim>\<open>lib/monomers.js\<close> is embedded as state-passing functions over a
  record of everything the code mutates: the fields of the \<^verbatim>\<open>Monomers\<close> instance, the
  metadata objects (a store of addresses, because the code shares and mutates them), the
  promises with their pending reactions, and the job queue of the event loop. A function
  that can throw returns \<open>(error + 'a) \<times> state\<close>: the state is returned on a throw too,
  since what was written before the throw stays written.
\<close>

type_synonym url = string
type_synonym pid = nat
type_synonym addr = nat

datatype error =
    Error string      \<comment> \<open>\<^verbatim>\<open>new Error(message)\<close>\<close>
  | TypeError         \<comment> \<open>a property read on \<^verbatim>\<open>undefined\<close>\<close>
  | Thrown string     \<comment> \<open>whatever a collaborator (a parser, the loader) fails with\<close>

text \<open>A parse5 node, as far as the code reads it: its attributes, and for a script the
  values of its child text nodes.\<close>

record node =
  attrs :: "(string \<times> string) list"
  childNodes :: "string list"

text \<open>\<^verbatim>\<open>dom5.getAttribute\<close>: the value of the first attribute of that name.
  \<^verbatim>\<open>dom5.removeAttribute\<close>: that attribute removed.\<close>

definition getAttribute :: "node \<Rightarrow> string \<Rightarrow> string option" where
  "getAttribute n a = map_of (attrs n) a"

fun remove_first :: "string \<Rightarrow> (string \<times> string) list \<Rightarrow> (string \<times> string) list" where
  "remove_first a [] = []"
| "remove_first a (kv # kvs) = (if fst kv = a then kvs else kv # remove_first a kvs)"

definition removeAttribute :: "node \<Rightarrow> string \<Rightarrow> node" where
  "removeAttribute n a = n\<lparr>attrs := remove_first a (attrs n)\<rparr>"

text \<open>A JavaScript condition on an attribute value: \<^verbatim>\<open>null\<close> and the empty string are
  falsy.\<close>

definition truthy_attr :: "string option \<Rightarrow> bool" where
  "truthy_attr v = (case v of None \<Rightarrow> False | Some x \<Rightarrow> x \<noteq> [])"

text \<open>An ElementMonomer and a ModuleMonomer: the identifier \<^verbatim>\<open>is\<close>, and for an element
  the \<^verbatim>\<open>domModule\<close> that \<^verbatim>\<open>attachDomModule\<close> sets.\<close>

record element =
  el_is :: string
  domModule :: "node option"

record jsmodule =
  mod_is :: string

text \<open>What \<^verbatim>\<open>jsParse\<close> returns: \<^verbatim>\<open>{elements?, modules?}\<close>; the code tests both for
  presence (\<^verbatim>\<open>if (parsedJs.elements)\<close>).\<close>

record parsedJs =
  js_elements :: "element list option"
  js_modules :: "jsmodule list option"

text \<open>What \<^verbatim>\<open>importParse\<close> returns: the code tests \<^verbatim>\<open>parsed.script\<close> for presence and
  reads \<^verbatim>\<open>parsed.import\<close> and \<^verbatim>\<open>parsed['dom-module']\<close> as arrays.\<close>

record parsedImport =
  p_script :: "node list option"
  p_import :: "node list"
  p_dom_module :: "node list"

text \<open>The values a promise of the program resolves to, and the members of the arrays it
  builds. \<open>Ref a\<close> is a reference to the metadata object at address \<open>a\<close>; \<open>Placeholder\<close>
  is the literal \<^verbatim>\<open>{}\<close> of \<^verbatim>\<open>_metadataTree\<close>; \<open>Prom p\<close> is a promise.\<close>

datatype jsval =
    Undefined
  | VTrue
  | Content string
  | Ref addr
  | Placeholder
  | Parsed parsedImport
  | Hrefs "url list"
  | Js parsedJs
  | Arr "jsval list"
  | Prom pid

text \<open>A Metadata object: \<^verbatim>\<open>{elements, modules}\<close>, on which \<^verbatim>\<open>_metadataTree\<close> later sets
  \<^verbatim>\<open>imports\<close>, \<^verbatim>\<open>href\<close> and \<^verbatim>\<open>html\<close>. An entry \<open>None\<close> of a list is the value
  \<^verbatim>\<open>undefined\<close>, which \<^verbatim>\<open>concat\<close> appends when its argument is not an array.\<close>

record metadata =
  elements :: "element option list"
  modules :: "jsmodule option list"
  meta_imports :: "jsval list option"
  meta_href :: "url option"
  meta_html :: "parsedImport option"

text \<open>An HTMLMonomer, the entry of \<^verbatim>\<open>this.html\<close>: its three promises by their ids.\<close>

record htmlMonomer =
  doc_href :: url
  htmlLoaded :: pid
  metadataLoaded :: pid
  depsLoaded :: pid

text \<open>What a read of \<^verbatim>\<open>this.html[href]\<close> gives: an HTMLMonomer, a member that every object
  inherits from \<^verbatim>\<open>Object.prototype\<close>, or \<^verbatim>\<open>undefined\<close>.\<close>

datatype htmlEntry = DocNode htmlMonomer | Inherited | NoEntry

subsection \<open>Promises\<close>

text \<open>
  The callbacks that the code passes to \<^verbatim>\<open>then\<close> and \<^verbatim>\<open>catch\<close>, each with what its
  closure captures. \<open>KAllElem\<close> and \<open>KAdopt\<close> are the reactions of \<^verbatim>\<open>Promise.all\<close>
  and of a promise resolved with another promise.
\<close>

datatype kont =
    KParseDep url          \<comment> \<open>line 132: \<^verbatim>\<open>function(content) {return this._parseHTML(content, resolvedUrl).depsLoaded;}\<close>\<close>
  | KDepHrefs "url list"   \<comment> \<open>line 140: \<^verbatim>\<open>function() {return depHrefs;}\<close>\<close>
  | KRethrow               \<comment> \<open>lines 141, 193: \<^verbatim>\<open>.catch(function(err) {throw err;})\<close>\<close>
  | KReduce                \<comment> \<open>line 156: \<^verbatim>\<open>function(metadataList) {return metadataList.reduce(reduceMetadata, EMPTY_METADATA);}\<close>\<close>
  | KScript node url       \<comment> \<open>line 187: the callback on the loaded script text\<close>
  | KTree1 htmlMonomer nat        \<comment> \<open>line 209: \<^verbatim>\<open>function(metadata)\<close>, with \<^verbatim>\<open>loadedHrefs\<close>\<close>
  | KTree2 htmlMonomer nat addr   \<comment> \<open>line 210: \<^verbatim>\<open>function(hrefs)\<close>\<close>
  | KChild url nat                \<comment> \<open>line 219: \<^verbatim>\<open>function() {return this._metadataTree(this.html[href], loadedHrefs);}\<close>\<close>
  | KTree3 htmlMonomer addr       \<comment> \<open>line 227: \<^verbatim>\<open>function(importMetadata)\<close>\<close>
  | KTree4 htmlMonomer addr       \<comment> \<open>line 230: \<^verbatim>\<open>function(parsedHtml)\<close>\<close>
  | KAllElem nat nat
  | KAdopt

datatype outcome = Pending | Fulfilled jsval | Rejected error

record promise =
  pstate :: outcome
  reactions :: "(kont \<times> pid) list"

text \<open>One \<^verbatim>\<open>Promise.all\<close> call: the values collected so far and the promise it returned.\<close>

record all_state =
  all_values :: "jsval option list"
  all_target :: pid

text \<open>The walk of \<^verbatim>\<open>_metadataTree\<close> as it happens: when the function is called for a
  document, and when the last callback of that call returns its node.\<close>

datatype walk_event = Start url | Done url

text \<open>
  The state. \<open>this_*\<close> are the fields of the instance; \<open>heap\<close> holds the metadata objects,
  with \<^verbatim>\<open>EMPTY_METADATA\<close> at address 0; \<open>loadedHrefs\<close> holds one object per call of
  \<^verbatim>\<open>metadataTree\<close>; \<open>requests\<close> lists the calls of \<^verbatim>\<open>loader.request\<close> in order, each with
  the promise it returned; \<open>parseLog\<close> and \<open>walkLog\<close> record the calls of \<^verbatim>\<open>importParse\<close>
  and the walk, for the theorems only.
\<close>

record state =
  this_attachAST :: bool
  this_loader :: bool
  this_elements :: "string \<rightharpoonup> element"
  this_modules :: "string \<rightharpoonup> jsmodule"
  this_html :: "url \<rightharpoonup> htmlMonomer"
  this_root :: htmlEntry
  heap :: "metadata list"
  promises :: "promise list"
  alls :: "all_state list"
  loadedHrefs :: "(url \<rightharpoonup> bool) list"
  queue :: "(kont \<times> pid \<times> outcome) list"
  requests :: "(url \<times> pid) list"
  parseLog :: "url list"
  walkLog :: "walk_event list"

text \<open>The collaborators that are not part of this file: the two parsers and
  \<^verbatim>\<open>url.resolve\<close>.\<close>

record env =
  importParse :: "string \<Rightarrow> error + parsedImport"
  jsParse :: "string \<Rightarrow> bool \<Rightarrow> error + parsedJs"
  url_resolve :: "url \<Rightarrow> url \<Rightarrow> url"

text \<open>
  The names every object literal inherits from \<^verbatim>\<open>Object.prototype\<close>. The operator
  \<^verbatim>\<open>in\<close> and a property read find them as well as the object's own keys; the code writes
  a key only after such a test failed, so no inherited name is ever written.
\<close>

definition Object_prototype :: "string list" where
  "Object_prototype =
    [''constructor'', ''__defineGetter__'', ''__defineSetter__'', ''hasOwnProperty'',
     ''__lookupGetter__'', ''__lookupSetter__'', ''isPrototypeOf'', ''propertyIsEnumerable'',
     ''toString'', ''valueOf'', ''__proto__'', ''toLocaleString'']"

definition has_key :: "string \<Rightarrow> (string \<rightharpoonup> 'a) \<Rightarrow> bool" where
  "has_key k m = (case m k of Some _ \<Rightarrow> True | None \<Rightarrow> k \<in> set Object_prototype)"

definition read_html :: "state \<Rightarrow> url \<Rightarrow> htmlEntry" where
  "read_html s h =
     (case this_html s h of
        Some m \<Rightarrow> DocNode m
      | None \<Rightarrow> if h \<in> set Object_prototype then Inherited else NoEntry)"


section \<open>Promises and the job queue\<close>

text \<open>
  A promise is an entry of \<open>promises\<close>, named by its index. \<^verbatim>\<open>then\<close> makes the derived
  promise and registers the callback: as a reaction while the promise is pending, as a job
  at the end of the queue when it is settled. Settling a promise turns its reactions into
  jobs, in the order they were registered. A callback never runs inside the call that
  registers it.
\<close>

definition newPromise :: "outcome \<Rightarrow> state \<Rightarrow> pid \<times> state" where
  "newPromise out s =
     (length (promises s), s\<lparr>promises := promises s @ [\<lparr>pstate = out, reactions = []\<rparr>]\<rparr>)"

definition Promise_resolve :: "jsval \<Rightarrow> state \<Rightarrow> pid \<times> state" where
  "Promise_resolve v s = newPromise (Fulfilled v) s"

definition enqueue :: "(kont \<times> pid) list \<Rightarrow> outcome \<Rightarrow> state \<Rightarrow> state" where
  "enqueue rs out s = s\<lparr>queue := queue s @ map (\<lambda>r. (fst r, snd r, out)) rs\<rparr>"

definition subscribe :: "pid \<Rightarrow> kont \<Rightarrow> pid \<Rightarrow> state \<Rightarrow> state" where
  "subscribe p k q s =
     (case pstate (promises s ! p) of
        Pending \<Rightarrow>
          s\<lparr>promises := (promises s)
               [p := (promises s ! p)\<lparr>reactions := reactions (promises s ! p) @ [(k, q)]\<rparr>]\<rparr>
      | Fulfilled v \<Rightarrow> enqueue [(k, q)] (Fulfilled v) s
      | Rejected e \<Rightarrow> enqueue [(k, q)] (Rejected e) s)"

definition then_p :: "pid \<Rightarrow> kont \<Rightarrow> state \<Rightarrow> pid \<times> state" where
  "then_p p k s = (case newPromise Pending s of (q, s1) \<Rightarrow> (q, subscribe p k q s1))"

text \<open>Settling: a promise is settled once; a later attempt changes nothing.\<close>

definition settle :: "pid \<Rightarrow> outcome \<Rightarrow> state \<Rightarrow> state" where
  "settle p out s =
     (case pstate (promises s ! p) of
        Pending \<Rightarrow>
          enqueue (reactions (promises s ! p)) out
            (s\<lparr>promises := (promises s)[p := \<lparr>pstate = out, reactions = []\<rparr>]\<rparr>)
      | Fulfilled v \<Rightarrow> s
      | Rejected e \<Rightarrow> s)"

text \<open>Resolving with the value a callback returned: a returned promise is followed (the
  derived promise settles as the returned one does), any other value fulfils.\<close>

definition resolve :: "pid \<Rightarrow> jsval \<Rightarrow> state \<Rightarrow> state" where
  "resolve q v s =
     (case v of
        Prom r \<Rightarrow> subscribe r KAdopt q s
      | _ \<Rightarrow> settle q (Fulfilled v) s)"

text \<open>\<^verbatim>\<open>Promise.all\<close>: each member (wrapped by \<^verbatim>\<open>Promise.resolve\<close> when it is not a
  promise) gets a reaction that stores its value at its index; the returned promise is
  fulfilled with the array once every index is filled, at once for the empty array, and
  rejected with the first rejection that arrives.\<close>

fun all_subscribe :: "nat \<Rightarrow> nat \<Rightarrow> jsval list \<Rightarrow> state \<Rightarrow> state" where
  "all_subscribe a i [] s = s"
| "all_subscribe a i (x # xs) s =
     (case (case x of Prom p \<Rightarrow> (p, s) | _ \<Rightarrow> Promise_resolve x s) of
        (p, s1) \<Rightarrow> all_subscribe a (Suc i) xs (snd (then_p p (KAllElem a i) s1)))"

definition Promise_all :: "jsval list \<Rightarrow> state \<Rightarrow> pid \<times> state" where
  "Promise_all xs s =
     (case newPromise Pending s of
        (t, s1) \<Rightarrow>
          (let a = length (alls s1);
               s2 = s1\<lparr>alls := alls s1 @ [\<lparr>all_values = map (\<lambda>x. None) xs, all_target = t\<rparr>]\<rparr>
           in case xs of
                [] \<Rightarrow> (t, settle t (Fulfilled (Arr [])) s2)
              | _ \<Rightarrow> (t, all_subscribe a 0 xs s2)))"

definition filled :: "jsval option \<Rightarrow> bool" where
  "filled x = (case x of None \<Rightarrow> False | Some v \<Rightarrow> True)"

definition all_element :: "nat \<Rightarrow> nat \<Rightarrow> jsval \<Rightarrow> state \<Rightarrow> state" where
  "all_element a i v s =
     (let st = alls s ! a;
          vs = (all_values st)[i := Some v];
          s1 = s\<lparr>alls := (alls s)[a := st\<lparr>all_values := vs\<rparr>]\<rparr>
      in if list_all filled vs
         then settle (all_target st) (Fulfilled (Arr (map the vs))) s1
         else s1)"

text \<open>\<^verbatim>\<open>this.loader.request(url)\<close>: a pending promise that the loader settles later.\<close>

definition loader_request :: "url \<Rightarrow> state \<Rightarrow> pid \<times> state" where
  "loader_request u s =
     (case newPromise Pending s of (p, s1) \<Rightarrow> (p, s1\<lparr>requests := requests s1 @ [(u, p)]\<rparr>))"

section \<open>The functions of the engine\<close>

subsection \<open>\<^verbatim>\<open>_processScript\<close> (lines 161 to 197)\<close>

text \<open>
  The callback of \<^verbatim>\<open>parsedJs.elements.forEach\<close> is bound to the instance
  (\<^verbatim>\<open>.bind(this)\<close>, line 173). The callback of \<^verbatim>\<open>parsedJs.modules.forEach\<close> is not
  (line 181), and the file is in strict mode: inside it \<^verbatim>\<open>this\<close> is \<^verbatim>\<open>undefined\<close>, and
  the read \<^verbatim>\<open>this.modules\<close> throws a TypeError. \<open>bound\<close> says which of the two holds.
\<close>

definition element_callback :: "bool \<Rightarrow> element \<Rightarrow> state \<Rightarrow> (error + unit) \<times> state" where
  "element_callback bound element s =
     (if \<not> bound then (Inl TypeError, s)
      else if has_key (el_is element) (this_elements s)
      then (Inl (Error (''Duplicate element definition: '' @ el_is element)), s)
      else (Inr (), s\<lparr>this_elements := (this_elements s)(el_is element \<mapsto> element)\<rparr>))"

definition module_callback :: "bool \<Rightarrow> jsmodule \<Rightarrow> state \<Rightarrow> (error + unit) \<times> state" where
  "module_callback bound module s =
     (if \<not> bound then (Inl TypeError, s)
      else if has_key (mod_is module) (this_modules s)
      then (Inl (Error (''Duplicate module definition: '' @ mod_is module)), s)
      else (Inr (), s\<lparr>this_modules := (this_modules s)(mod_is module \<mapsto> module)\<rparr>))"

fun forEach :: "('a \<Rightarrow> state \<Rightarrow> (error + unit) \<times> state) \<Rightarrow> 'a list \<Rightarrow> state
    \<Rightarrow> (error + unit) \<times> state" where
  "forEach f [] s = (Inr (), s)"
| "forEach f (x # xs) s =
     (case f x s of
        (Inl e, s1) \<Rightarrow> (Inl e, s1)
      | (Inr u, s1) \<Rightarrow> forEach f xs s1)"

definition register_all :: "parsedJs \<Rightarrow> state \<Rightarrow> (error + unit) \<times> state" where
  "register_all parsedJs s =
     (case (case js_elements parsedJs of
              None \<Rightarrow> (Inr (), s)
            | Some es \<Rightarrow> forEach (element_callback True) es s) of
        (Inl e, s1) \<Rightarrow> (Inl e, s1)
      | (Inr u, s1) \<Rightarrow>
          (case js_modules parsedJs of
             None \<Rightarrow> (Inr (), s1)
           | Some ms \<Rightarrow> forEach (module_callback False) ms s1))"

definition processScript :: "env \<Rightarrow> node \<Rightarrow> url \<Rightarrow> state \<Rightarrow> (error + jsval) \<times> state" where
  "processScript env script href s =
     (let src = getAttribute script ''src'' in
      if \<not> truthy_attr src then
        (case childNodes script of
           [] \<Rightarrow> (Inl TypeError, s)
         | text # rest \<Rightarrow>
             (case jsParse env text (this_attachAST s) of
                Inl e \<Rightarrow> (Inl e, s)
              | Inr parsedJs \<Rightarrow>
                  (case register_all parsedJs s of
                     (Inl e, s1) \<Rightarrow> (Inl e, s1)
                   | (Inr u, s1) \<Rightarrow> (Inr (Js parsedJs), s1))))
      else if this_loader s then
        (let resolvedSrc = url_resolve env href (the src) in
         case loader_request resolvedSrc s of
           (req, s1) \<Rightarrow>
             (case then_p req (KScript script href) s1 of
                (p, s2) \<Rightarrow>
                  (case then_p p KRethrow s2 of
                     (p', s3) \<Rightarrow> (Inr (Prom p'), s3))))
      else
        (case Promise_resolve (Ref 0) s of (p, s1) \<Rightarrow> (Inr (Prom p), s1)))"

subsection \<open>\<^verbatim>\<open>_processScripts\<close> (lines 151 to 159) and \<^verbatim>\<open>reduceMetadata\<close> (lines 20 to 25)\<close>

fun forEach_script :: "env \<Rightarrow> url \<Rightarrow> node list \<Rightarrow> jsval list \<Rightarrow> state
    \<Rightarrow> (error + jsval list) \<times> state" where
  "forEach_script env href [] scriptPromises s = (Inr scriptPromises, s)"
| "forEach_script env href (script # scripts) scriptPromises s =
     (case processScript env script href s of
        (Inl e, s1) \<Rightarrow> (Inl e, s1)
      | (Inr r, s1) \<Rightarrow> forEach_script env href scripts (scriptPromises @ [r]) s1)"

definition processScripts :: "env \<Rightarrow> node list \<Rightarrow> url \<Rightarrow> state \<Rightarrow> (error + pid) \<times> state" where
  "processScripts env scripts href s =
     (case forEach_script env href scripts [] s of
        (Inl e, s1) \<Rightarrow> (Inl e, s1)
      | (Inr scriptPromises, s1) \<Rightarrow>
          (case Promise_all scriptPromises s1 of
             (pall, s2) \<Rightarrow>
               (case then_p pall KReduce s2 of (p, s3) \<Rightarrow> (Inr p, s3))))"

text \<open>
  \<^verbatim>\<open>m.elements\<close> and \<^verbatim>\<open>m.modules\<close> of one member of \<^verbatim>\<open>metadataList\<close>: the member is what
  \<^verbatim>\<open>jsParse\<close> returned, or \<^verbatim>\<open>EMPTY_METADATA\<close> (a script with \<^verbatim>\<open>src\<close> and no loader). The
  read gives \<open>None\<close> for \<^verbatim>\<open>undefined\<close>. \<^verbatim>\<open>xs.concat(y)\<close> appends the members of \<open>y\<close> when
  \<open>y\<close> is an array and the value \<open>y\<close> itself when it is not.
\<close>

definition get_elements :: "state \<Rightarrow> jsval \<Rightarrow> element option list option" where
  "get_elements s m =
     (case m of
        Ref a \<Rightarrow> Some (elements (heap s ! a))
      | Js parsedJs \<Rightarrow> map_option (map Some) (js_elements parsedJs)
      | _ \<Rightarrow> None)"

definition get_modules :: "state \<Rightarrow> jsval \<Rightarrow> jsmodule option list option" where
  "get_modules s m =
     (case m of
        Ref a \<Rightarrow> Some (modules (heap s ! a))
      | Js parsedJs \<Rightarrow> map_option (map Some) (js_modules parsedJs)
      | _ \<Rightarrow> None)"

definition concat_js :: "'a option list \<Rightarrow> 'a option list option \<Rightarrow> 'a option list" where
  "concat_js xs y = (case y of Some ys \<Rightarrow> xs @ ys | None \<Rightarrow> xs @ [None])"

definition reduceMetadata :: "addr \<Rightarrow> jsval \<Rightarrow> state \<Rightarrow> addr \<times> state" where
  "reduceMetadata m1 m2 s =
     (length (heap s),
      s\<lparr>heap := heap s @
          [\<lparr>elements = concat_js (elements (heap s ! m1)) (get_elements s m2),
            modules = concat_js (modules (heap s ! m1)) (get_modules s m2),
            meta_imports = None, meta_href = None, meta_html = None\<rparr>]\<rparr>)"

fun reduce :: "addr \<Rightarrow> jsval list \<Rightarrow> state \<Rightarrow> addr \<times> state" where
  "reduce acc [] s = (acc, s)"
| "reduce acc (m # ms) s = (case reduceMetadata acc m s of (a, s1) \<Rightarrow> reduce a ms s1)"


subsection \<open>\<^verbatim>\<open>_parseHTML\<close> (lines 104 to 149)\<close>

text \<open>The callback of \<^verbatim>\<open>parsed.import.forEach\<close> (lines 127 to 137): one request and one
  dependent promise for every link whose \<^verbatim>\<open>href\<close> attribute is truthy.\<close>

fun forEach_import :: "env \<Rightarrow> url \<Rightarrow> node list \<Rightarrow> url list \<Rightarrow> jsval list \<Rightarrow> state
    \<Rightarrow> url list \<times> jsval list \<times> state" where
  "forEach_import env href [] depHrefs deps s = (depHrefs, deps, s)"
| "forEach_import env href (link # links) depHrefs deps s =
     (let linkurl = getAttribute link ''href'' in
      if truthy_attr linkurl then
        (let resolvedUrl = url_resolve env href (the linkurl) in
         case loader_request resolvedUrl s of
           (req, s1) \<Rightarrow>
             (case then_p req (KParseDep resolvedUrl) s1 of
                (dep, s2) \<Rightarrow>
                  forEach_import env href links
                    (depHrefs @ [resolvedUrl]) (deps @ [Prom dep]) s2))
      else forEach_import env href links depHrefs deps s)"

text \<open>Lines 121 to 124: \<^verbatim>\<open>metadataLoaded\<close> and the first member of the array
  \<^verbatim>\<open>depsLoaded\<close>. \<open>metadataLoaded0\<close> is the promise of line 111.\<close>

definition scripts_part :: "env \<Rightarrow> parsedImport \<Rightarrow> url \<Rightarrow> pid \<Rightarrow> state
    \<Rightarrow> (error + pid \<times> jsval list) \<times> state" where
  "scripts_part env parsed href metadataLoaded0 s =
     (case p_script parsed of
        None \<Rightarrow> (Inr (metadataLoaded0, []), s)
      | Some scripts \<Rightarrow>
          (case processScripts env scripts href s of
             (Inl e, s1) \<Rightarrow> (Inl e, s1)
           | (Inr p, s1) \<Rightarrow> (Inr (p, [Prom p]), s1)))"

text \<open>Lines 126 to 138.\<close>

definition imports_part :: "env \<Rightarrow> parsedImport \<Rightarrow> url \<Rightarrow> jsval list \<Rightarrow> state
    \<Rightarrow> url list \<times> jsval list \<times> state" where
  "imports_part env parsed href deps s =
     (if this_loader s then forEach_import env href (p_import parsed) [] deps s
      else ([], deps, s))"

text \<open>Lines 139 to 148.\<close>

definition register_html :: "url \<Rightarrow> pid \<Rightarrow> pid \<Rightarrow> url list \<Rightarrow> jsval list \<Rightarrow> state
    \<Rightarrow> htmlMonomer \<times> state" where
  "register_html href htmlLoaded' metadataLoaded' depHrefs deps s =
     (case Promise_all deps s of
        (pall, s1) \<Rightarrow>
          (case then_p pall (KDepHrefs depHrefs) s1 of
             (pthen, s2) \<Rightarrow>
               (case then_p pthen KRethrow s2 of
                  (depsLoaded', s3) \<Rightarrow>
                    (let m = \<lparr>doc_href = href, htmlLoaded = htmlLoaded',
                              metadataLoaded = metadataLoaded', depsLoaded = depsLoaded'\<rparr>
                     in (m, s3\<lparr>this_html := (this_html s3)(href \<mapsto> m)\<rparr>)))))"

definition parseHTML :: "env \<Rightarrow> string \<Rightarrow> url \<Rightarrow> state \<Rightarrow> (error + htmlEntry) \<times> state" where
  "parseHTML env htmlImport href s =
     (if has_key href (this_html s) then (Inr (read_html s href), s)
      else
        case Promise_resolve (Ref 0) s of
          (metadataLoaded0, s1) \<Rightarrow>
            (case importParse env htmlImport of
               Inl err \<Rightarrow> (Inl err, s1\<lparr>parseLog := parseLog s1 @ [href]\<rparr>)
             | Inr parsed \<Rightarrow>
                 (case Promise_resolve (Parsed parsed) (s1\<lparr>parseLog := parseLog s1 @ [href]\<rparr>) of
                    (htmlLoaded', s2) \<Rightarrow>
                      (case scripts_part env parsed href metadataLoaded0 s2 of
                         (Inl e, s3) \<Rightarrow> (Inl e, s3)
                       | (Inr (metadataLoaded', deps0), s3) \<Rightarrow>
                           (case imports_part env parsed href deps0 s3 of
                              (depHrefs, deps, s4) \<Rightarrow>
                                (case register_html href htmlLoaded' metadataLoaded' depHrefs deps s4 of
                                   (m, s5) \<Rightarrow> (Inr (DocNode m), s5)))))))"

subsection \<open>\<^verbatim>\<open>attachDomModule\<close> (lines 244 to 253)\<close>

text \<open>The loop over \<^verbatim>\<open>parsedImport['dom-module']\<close>. The element is an entry of
  \<^verbatim>\<open>metadata.elements\<close>; for the entry \<^verbatim>\<open>undefined\<close> the read \<^verbatim>\<open>element.is\<close> of the first
  iteration throws.\<close>

fun attach_loop :: "node list \<Rightarrow> element option \<Rightarrow> error + element option" where
  "attach_loop [] element = Inr element"
| "attach_loop (dm # rest) element =
     (case element of
        None \<Rightarrow> Inl TypeError
      | Some e \<Rightarrow>
          if getAttribute dm ''id'' = Some (el_is e)
          then Inr (Some (e\<lparr>domModule := Some dm\<rparr>))
          else attach_loop rest element)"

definition attachDomModule :: "parsedImport \<Rightarrow> element option \<Rightarrow> error + element option" where
  "attachDomModule parsedImport element = attach_loop (p_dom_module parsedImport) element"

text \<open>\<^verbatim>\<open>metadata.elements.forEach\<close> of lines 233 to 235: the elements bound so far stay bound
  when a later one throws.\<close>

fun attach_each :: "parsedImport \<Rightarrow> element option list \<Rightarrow> error option \<times> element option list" where
  "attach_each parsedHtml [] = (None, [])"
| "attach_each parsedHtml (element # rest) =
     (case attachDomModule parsedHtml element of
        Inl e \<Rightarrow> (Some e, element # rest)
      | Inr element' \<Rightarrow>
          (case attach_each parsedHtml rest of (r, rest') \<Rightarrow> (r, element' # rest')))"

subsection \<open>\<^verbatim>\<open>_metadataTree\<close> (lines 207 to 242)\<close>

text \<open>A JavaScript condition on \<^verbatim>\<open>loadedHrefs[href]\<close>: true once the code has stored
  \<^verbatim>\<open>true\<close> there, and for the names that the object inherits.\<close>

definition loaded :: "(url \<rightharpoonup> bool) \<Rightarrow> url \<Rightarrow> bool" where
  "loaded lh h = (case lh h of Some b \<Rightarrow> b | None \<Rightarrow> h \<in> set Object_prototype)"

definition metadataTree' :: "htmlEntry \<Rightarrow> nat \<Rightarrow> state \<Rightarrow> (error + jsval) \<times> state" where
  "metadataTree' htmlMonomer lh s =
     (case htmlMonomer of
        DocNode m \<Rightarrow>
          (case then_p (metadataLoaded m) (KTree1 m lh)
                  (s\<lparr>walkLog := walkLog s @ [Start (doc_href m)]\<rparr>) of
             (p, s1) \<Rightarrow> (Inr (Prom p), s1))
      | Inherited \<Rightarrow> (Inl TypeError, s)
      | NoEntry \<Rightarrow> (Inl TypeError, s))"

text \<open>The callback of \<^verbatim>\<open>hrefs.forEach\<close> (lines 212 to 226). \<open>depMetadata\<close> is the array
  of promises built so far.\<close>

fun forEach_href :: "nat \<Rightarrow> url list \<Rightarrow> pid list \<Rightarrow> state \<Rightarrow> pid list \<times> state" where
  "forEach_href lh [] depMetadata s = (depMetadata, s)"
| "forEach_href lh (h # hs) depMetadata s =
     (if \<not> loaded (loadedHrefs s ! lh) h then
        (let s1 = s\<lparr>loadedHrefs := (loadedHrefs s)[lh := (loadedHrefs s ! lh)(h \<mapsto> True)]\<rparr> in
         case Promise_resolve VTrue s1 of
           (resolved, s2) \<Rightarrow>
             (let metadataPromise =
                    (if length depMetadata > 0 then last depMetadata else resolved)
              in case then_p metadataPromise (KChild h lh) s2 of
                   (metadataPromise', s3) \<Rightarrow>
                     forEach_href lh hs (depMetadata @ [metadataPromise']) s3))
      else
        (case Promise_resolve Placeholder s of
           (p, s1) \<Rightarrow> forEach_href lh hs (depMetadata @ [p]) s1))"

text \<open>The callbacks, each on the kind of value its promise resolves to.\<close>

definition parseDep_callback :: "env \<Rightarrow> url \<Rightarrow> string \<Rightarrow> state \<Rightarrow> (error + jsval) \<times> state" where
  "parseDep_callback env resolvedUrl content s =
     (case parseHTML env content resolvedUrl s of
        (Inl e, s1) \<Rightarrow> (Inl e, s1)
      | (Inr (DocNode m), s1) \<Rightarrow> (Inr (Prom (depsLoaded m)), s1)
      | (Inr Inherited, s1) \<Rightarrow> (Inr Undefined, s1)
      | (Inr NoEntry, s1) \<Rightarrow> (Inl TypeError, s1))"

definition script_callback :: "env \<Rightarrow> node \<Rightarrow> url \<Rightarrow> string \<Rightarrow> state \<Rightarrow> (error + jsval) \<times> state" where
  "script_callback env script href content s =
     processScript env (removeAttribute (script\<lparr>childNodes := [content]\<rparr>) ''src'') href s"

definition reduce_callback :: "jsval list \<Rightarrow> state \<Rightarrow> (error + jsval) \<times> state" where
  "reduce_callback metadataList s =
     (case reduce 0 metadataList s of (a, s1) \<Rightarrow> (Inr (Ref a), s1))"

definition tree1_callback :: "htmlMonomer \<Rightarrow> nat \<Rightarrow> addr \<Rightarrow> state \<Rightarrow> (error + jsval) \<times> state" where
  "tree1_callback htmlMonomer lh metadata s =
     (case then_p (depsLoaded htmlMonomer) (KTree2 htmlMonomer lh metadata) s of
        (p, s1) \<Rightarrow> (Inr (Prom p), s1))"

definition tree2_callback :: "htmlMonomer \<Rightarrow> nat \<Rightarrow> addr \<Rightarrow> url list \<Rightarrow> state
    \<Rightarrow> (error + jsval) \<times> state" where
  "tree2_callback htmlMonomer lh metadata hrefs s =
     (case forEach_href lh hrefs [] s of
        (depMetadata, s1) \<Rightarrow>
          (case Promise_all (map Prom depMetadata) s1 of
             (pall, s2) \<Rightarrow>
               (case then_p pall (KTree3 htmlMonomer metadata) s2 of
                  (p, s3) \<Rightarrow> (Inr (Prom p), s3))))"

definition child_callback :: "url \<Rightarrow> nat \<Rightarrow> state \<Rightarrow> (error + jsval) \<times> state" where
  "child_callback href lh s = metadataTree' (read_html s href) lh s"

definition tree3_callback :: "htmlMonomer \<Rightarrow> addr \<Rightarrow> jsval list \<Rightarrow> state
    \<Rightarrow> (error + jsval) \<times> state" where
  "tree3_callback htmlMonomer metadata importMetadata s =
     (case then_p (htmlLoaded htmlMonomer) (KTree4 htmlMonomer metadata)
             (s\<lparr>heap := (heap s)[metadata := (heap s ! metadata)
                   \<lparr>meta_imports := Some importMetadata,
                    meta_href := Some (doc_href htmlMonomer)\<rparr>]\<rparr>) of
        (p, s1) \<Rightarrow> (Inr (Prom p), s1))"

definition tree4_callback :: "htmlMonomer \<Rightarrow> addr \<Rightarrow> parsedImport \<Rightarrow> state
    \<Rightarrow> (error + jsval) \<times> state" where
  "tree4_callback htmlMonomer metadata parsedHtml s =
     (case attach_each parsedHtml (elements (heap s ! metadata)) of
        (r, els) \<Rightarrow>
          (let s1 = s\<lparr>heap := (heap s)[metadata := (heap s ! metadata)
                        \<lparr>elements := els, meta_html := Some parsedHtml\<rparr>]\<rparr>
           in case r of
                Some e \<Rightarrow> (Inl e, s1)
              | None \<Rightarrow>
                  (Inr (Ref metadata), s1\<lparr>walkLog := walkLog s1 @ [Done (doc_href htmlMonomer)]\<rparr>)))"

text \<open>
  Calling a callback on the value its promise resolved to. A callback is only ever called
  on the kind of value its promise resolves to (the loader resolves with text,
  \<^verbatim>\<open>metadataLoaded\<close> with a metadata object, \<^verbatim>\<open>depsLoaded\<close> with the array of addresses,
  \<^verbatim>\<open>Promise.all\<close> with an array, \<^verbatim>\<open>htmlLoaded\<close> with the parsed document); the other
  combinations, which no run reaches, are given a TypeError.
\<close>

definition call :: "env \<Rightarrow> kont \<Rightarrow> jsval \<Rightarrow> state \<Rightarrow> (error + jsval) \<times> state" where
  "call env k v s =
     (case k of
        KParseDep resolvedUrl \<Rightarrow>
          (case v of Content content \<Rightarrow> parseDep_callback env resolvedUrl content s
                   | _ \<Rightarrow> (Inl TypeError, s))
      | KDepHrefs depHrefs \<Rightarrow> (Inr (Hrefs depHrefs), s)
      | KRethrow \<Rightarrow> (Inr v, s)
      | KReduce \<Rightarrow>
          (case v of Arr metadataList \<Rightarrow> reduce_callback metadataList s
                   | _ \<Rightarrow> (Inl TypeError, s))
      | KScript script href \<Rightarrow>
          (case v of Content content \<Rightarrow> script_callback env script href content s
                   | _ \<Rightarrow> (Inl TypeError, s))
      | KTree1 htmlMonomer lh \<Rightarrow>
          (case v of Ref metadata \<Rightarrow> tree1_callback htmlMonomer lh metadata s
                   | _ \<Rightarrow> (Inl TypeError, s))
      | KTree2 htmlMonomer lh metadata \<Rightarrow>
          (case v of Hrefs hrefs \<Rightarrow> tree2_callback htmlMonomer lh metadata hrefs s
                   | _ \<Rightarrow> (Inl TypeError, s))
      | KChild href lh \<Rightarrow> child_callback href lh s
      | KTree3 htmlMonomer metadata \<Rightarrow>
          (case v of Arr importMetadata \<Rightarrow> tree3_callback htmlMonomer metadata importMetadata s
                   | _ \<Rightarrow> (Inl TypeError, s))
      | KTree4 htmlMonomer metadata \<Rightarrow>
          (case v of Parsed parsedHtml \<Rightarrow> tree4_callback htmlMonomer metadata parsedHtml s
                   | _ \<Rightarrow> (Inl TypeError, s))
      | KAllElem a i \<Rightarrow> (Inr v, s)
      | KAdopt \<Rightarrow> (Inr v, s))"

subsection \<open>The event loop\<close>

text \<open>
  Running one job. A rejection passes through a callback registered with \<^verbatim>\<open>then\<close> (it has
  no rejection handler) and through \<^verbatim>\<open>catch(function(err) {throw err;})\<close> alike: the
  derived promise is rejected with the same error. A fulfilment passes through \<^verbatim>\<open>catch\<close>
  unchanged. Otherwise the callback runs, and \<open>finish\<close> settles the derived promise: what
  the callback throws rejects it, what it returns resolves it. The two reactions of
  \<^verbatim>\<open>Promise.all\<close> store the value, or reject the promise that \<^verbatim>\<open>Promise.all\<close> returned, and
  return \<^verbatim>\<open>undefined\<close>.
\<close>

definition finish :: "pid \<Rightarrow> (error + jsval) \<times> state \<Rightarrow> state" where
  "finish q r =
     (case r of
        (Inl e, s1) \<Rightarrow> settle q (Rejected e) s1
      | (Inr w, s1) \<Rightarrow> resolve q w s1)"

definition runJob :: "env \<Rightarrow> kont \<times> pid \<times> outcome \<Rightarrow> state \<Rightarrow> state" where
  "runJob env j s =
     (case j of (k, q, out) \<Rightarrow>
        (case out of
           Pending \<Rightarrow> s
         | Rejected e \<Rightarrow>
             (case k of
                KAllElem a i \<Rightarrow>
                  settle q (Fulfilled Undefined) (settle (all_target (alls s ! a)) (Rejected e) s)
              | _ \<Rightarrow> settle q (Rejected e) s)
         | Fulfilled v \<Rightarrow>
             (case k of
                KAllElem a i \<Rightarrow> settle q (Fulfilled Undefined) (all_element a i v s)
              | KAdopt \<Rightarrow> settle q (Fulfilled v) s
              | KRethrow \<Rightarrow> settle q (Fulfilled v) s
              | _ \<Rightarrow> finish q (call env k v s))))"

text \<open>The jobs run in the order they were queued, until the queue is empty; \<open>n\<close> bounds
  the number of jobs run.\<close>

fun drain :: "env \<Rightarrow> nat \<Rightarrow> state \<Rightarrow> state" where
  "drain env 0 s = s"
| "drain env (Suc n) s =
     (case queue s of
        [] \<Rightarrow> s
      | j # js \<Rightarrow> drain env n (runJob env j (s\<lparr>queue := js\<rparr>)))"

text \<open>What the loader does: it settles the promise of its \<open>n\<close>-th request, with the text of
  the resource or with a failure. The jobs this queues run before the next event.\<close>

datatype event = Respond nat string | Fail nat error

definition deliver :: "event \<Rightarrow> state \<Rightarrow> state" where
  "deliver ev s =
     (case ev of
        Respond n content \<Rightarrow>
          if n < length (requests s) then settle (snd (requests s ! n)) (Fulfilled (Content content)) s
          else s
      | Fail n e \<Rightarrow>
          if n < length (requests s) then settle (snd (requests s ! n)) (Rejected e) s
          else s)"

fun run :: "env \<Rightarrow> nat \<Rightarrow> event list \<Rightarrow> state \<Rightarrow> state" where
  "run env n [] s = drain env n s"
| "run env n (ev # evs) s = run env n evs (deliver ev (drain env n s))"

subsection \<open>The constructor (lines 78 to 96) and \<^verbatim>\<open>metadataTree\<close> (lines 203 to 205)\<close>

definition EMPTY_METADATA :: metadata where
  "EMPTY_METADATA =
     \<lparr>elements = [], modules = [], meta_imports = None, meta_href = None, meta_html = None\<rparr>"

definition init :: "bool \<Rightarrow> bool \<Rightarrow> state" where
  "init attachAST loader =
     \<lparr>this_attachAST = attachAST, this_loader = loader,
      this_elements = Map.empty, this_modules = Map.empty, this_html = Map.empty,
      this_root = NoEntry,
      heap = [EMPTY_METADATA], promises = [], alls = [], loadedHrefs = [],
      queue = [], requests = [], parseLog = [], walkLog = []\<rparr>"

definition Monomers :: "env \<Rightarrow> string \<Rightarrow> bool \<Rightarrow> url \<Rightarrow> bool \<Rightarrow> (error + unit) \<times> state" where
  "Monomers env htmlImport attachAST href loader =
     (case parseHTML env htmlImport href (init attachAST loader) of
        (Inl e, s) \<Rightarrow> (Inl e, s)
      | (Inr root, s) \<Rightarrow> (Inr (), s\<lparr>this_root := root\<rparr>))"

definition metadataTree :: "state \<Rightarrow> (error + jsval) \<times> state" where
  "metadataTree s =
     metadataTree' (this_root s) (length (loadedHrefs s))
       (s\<lparr>loadedHrefs := loadedHrefs s @ [Map.empty]\<rparr>)"

section \<open>Example documents\<close>

text \<open>
  Concrete inputs for the closed theorems below. A site is a table from the text of a
  document to what \<^verbatim>\<open>importParse\<close> makes of it; the text of the document at address
  \<open>u\<close> is written \<open><u>\<close>. Links are absolute, so \<^verbatim>\<open>url.resolve\<close> returns the link.
  \<open>script_table\<close> is a \<^verbatim>\<open>jsParse\<close> that reads the result off a table and fails on any
  other text.
\<close>

definition import_link :: "string \<Rightarrow> node" where
  "import_link u = \<lparr>attrs = [(''rel'', ''import''), (''href'', u)], childNodes = []\<rparr>"

definition inline_script :: "string \<Rightarrow> node" where
  "inline_script t = \<lparr>attrs = [], childNodes = [t]\<rparr>"

definition dom_module :: "string \<Rightarrow> node" where
  "dom_module i = \<lparr>attrs = [(''id'', i)], childNodes = []\<rparr>"

definition page :: "string list \<Rightarrow> string list \<Rightarrow> parsedImport" where
  "page scripts links =
     \<lparr>p_script = Some (map inline_script scripts), p_import = map import_link links, p_dom_module = []\<rparr>"

definition bare :: "string list \<Rightarrow> parsedImport" where
  "bare links = \<lparr>p_script = None, p_import = map import_link links, p_dom_module = []\<rparr>"

definition declares :: "string list \<Rightarrow> parsedJs" where
  "declares names =
     \<lparr>js_elements = Some (map (\<lambda>n. \<lparr>el_is = n, domModule = None\<rparr>) names), js_modules = Some []\<rparr>"

definition script_table :: "(string \<times> parsedJs) list \<Rightarrow> string \<Rightarrow> bool \<Rightarrow> error + parsedJs" where
  "script_table tab t a =
     (case map_of tab t of Some r \<Rightarrow> Inr r | None \<Rightarrow> Inl (Thrown ''script syntax''))"

definition site_env :: "(string \<times> parsedImport) list \<Rightarrow> (string \<times> parsedJs) list \<Rightarrow> env" where
  "site_env site tab =
     \<lparr>importParse = (\<lambda>t. case map_of site t of
                             Some p \<Rightarrow> Inr p
                           | None \<Rightarrow> Inl (Thrown ''document syntax'')),
      jsParse = script_table tab,
      url_resolve = (\<lambda>base l. l)\<rparr>"

text \<open>One script that declares the module \<open>m\<close> twice, and one that declares the element
  \<open>x-a\<close> twice.\<close>

definition two_modules :: parsedJs where
  "two_modules = \<lparr>js_elements = None, js_modules = Some [\<lparr>mod_is = ''m''\<rparr>, \<lparr>mod_is = ''m''\<rparr>]\<rparr>"

definition two_elements :: parsedJs where
  "two_elements = declares [''x-a'', ''x-a'']"

definition modules_env :: env where
  "modules_env = site_env [(''<M>'', page [''modules''] [])] [(''modules'', two_modules)]"

text \<open>A script for which \<^verbatim>\<open>jsParse\<close> returns \<^verbatim>\<open>{modules: []}\<close>, with no \<^verbatim>\<open>elements\<close>.\<close>

definition no_elements :: parsedJs where
  "no_elements = \<lparr>js_elements = None, js_modules = Some []\<rparr>"

text \<open>The cycle: A imports B, B imports A.\<close>

definition cycle_env :: env where
  "cycle_env = site_env [(''<A>'', page [] [''B'']), (''<B>'', page [] [''A''])] []"

definition cycle0 :: state where
  "cycle0 = snd (Monomers cycle_env ''<A>'' False ''A'' True)"

definition cycle1 :: state where
  "cycle1 = snd (metadataTree cycle0)"

definition cycle2 :: state where
  "cycle2 = run cycle_env 100 [Respond 0 ''<B>'', Respond 1 ''<A>''] cycle1"

text \<open>R imports B, B again, and C; each document declares one element.\<close>

definition serial_env :: env where
  "serial_env =
     site_env
       [(''<R>'', page [''r''] [''B'', ''B'', ''C'']), (''<B>'', page [''b''] []),
        (''<C>'', page [''c''] [])]
       [(''r'', declares [''x-r'']), (''b'', declares [''x-b'']), (''c'', declares [''x-c''])]"

definition serial0 :: state where
  "serial0 = snd (Monomers serial_env ''<R>'' False ''R'' True)"

definition serial1 :: state where
  "serial1 = snd (metadataTree serial0)"

definition serial2 :: state where
  "serial2 =
     run serial_env 100 [Respond 0 ''<B>'', Respond 1 ''<B>'', Respond 2 ''<C>''] serial1"

text \<open>R imports B and C; C imports B twice.\<close>

definition first_env :: env where
  "first_env =
     site_env
       [(''<R>'', page [''r''] [''B'', ''C'']), (''<B>'', page [''b''] []),
        (''<C>'', page [''c''] [''B'', ''B''])]
       [(''r'', declares [''x-r'']), (''b'', declares [''x-b'']), (''c'', declares [''x-c''])]"

definition first0 :: state where
  "first0 = snd (Monomers first_env ''<R>'' False ''R'' True)"

definition first1 :: state where
  "first1 = snd (metadataTree first0)"

definition first2 :: state where
  "first2 =
     run first_env 100
       [Respond 0 ''<B>'', Respond 1 ''<C>'', Respond 2 ''<B>'', Respond 3 ''<B>''] first1"

text \<open>Two documents without script nodes: R imports B.\<close>

definition empty_env :: env where
  "empty_env = site_env [(''<R>'', bare [''B'']), (''<B>'', bare [])] []"

definition empty0 :: state where
  "empty0 = snd (Monomers empty_env ''<R>'' False ''R'' True)"

definition empty1 :: state where
  "empty1 = snd (metadataTree empty0)"

definition empty2 :: state where
  "empty2 = run empty_env 100 [Respond 0 ''<B>''] empty1"

text \<open>Documents with \<^verbatim>\<open>dom-module\<close> nodes; the second attribute tells apart two nodes with
  the same \<^verbatim>\<open>id\<close>. R declares \<open>x-r\<close> and \<open>x-c\<close>, has the templates \<open>x-b\<close> and \<open>x-r\<close>, and
  imports B; B declares \<open>x-b\<close> and has the templates \<open>x-q\<close>, \<open>x-b\<close>, \<open>x-b\<close> and
  \<open>x-c\<close>.\<close>

definition template :: "string \<Rightarrow> string \<Rightarrow> node" where
  "template i n = \<lparr>attrs = [(''id'', i), (''n'', n)], childNodes = []\<rparr>"

definition page_with :: "string list \<Rightarrow> string list \<Rightarrow> node list \<Rightarrow> parsedImport" where
  "page_with scripts links templates =
     \<lparr>p_script = Some (map inline_script scripts), p_import = map import_link links,
      p_dom_module = templates\<rparr>"

definition bind_env :: env where
  "bind_env =
     site_env
       [(''<R>'', page_with [''r''] [''B''] [template ''x-b'' ''0'', template ''x-r'' ''1'']),
        (''<B>'', page_with [''b''] []
           [template ''x-q'' ''2'', template ''x-b'' ''3'', template ''x-b'' ''4'',
            template ''x-c'' ''5''])]
       [(''r'', declares [''x-r'', ''x-c'']), (''b'', declares [''x-b''])]"

definition bind0 :: state where
  "bind0 = snd (Monomers bind_env ''<R>'' False ''R'' True)"

definition bind1 :: state where
  "bind1 = snd (metadataTree bind0)"

definition bind2 :: state where
  "bind2 = run bind_env 100 [Respond 0 ''<B>''] bind1"

section \<open>Relations between states\<close>

text \<open>
  \<open>extends s s'\<close>: from \<open>s\<close> to \<open>s'\<close> promises were made and callbacks registered or
  queued, and nothing else happened to the promises: every promise of \<open>s\<close> is in \<open>s'\<close> in
  the state it had, with the reactions it had and perhaps more, and the jobs queued in \<open>s\<close>
  are still queued, in front. The synchronous code of the engine only ever extends the
  state; promises are settled by the jobs of the event loop and by the loader.
\<close>

definition extends :: "state \<Rightarrow> state \<Rightarrow> bool" where
  "extends s s' =
     (length (promises s) \<le> length (promises s')
      \<and> (\<forall>p<length (promises s).
            pstate (promises s' ! p) = pstate (promises s ! p)
            \<and> prefix (reactions (promises s ! p)) (reactions (promises s' ! p)))
      \<and> prefix (queue s) (queue s'))"

text \<open>The two fields that say which documents are resolved and which were parsed.\<close>

definition docs :: "state \<Rightarrow> (url \<rightharpoonup> htmlMonomer) \<times> url list" where
  "docs s = (this_html s, parseLog s)"

text \<open>\<open>kept h s s'\<close>: if the address \<open>h\<close> is in the table in \<open>s\<close>, it is in the table in
  \<open>s'\<close> and it was not parsed between the two.\<close>

definition kept :: "url \<Rightarrow> state \<Rightarrow> state \<Rightarrow> bool" where
  "kept h s s' =
     (has_key h (this_html s) \<longrightarrow>
        has_key h (this_html s') \<and> count_list (parseLog s') h = count_list (parseLog s) h)"

text \<open>The addresses that the import links of a document resolve to, in the order of the
  links: one for every link whose \<^verbatim>\<open>href\<close> attribute is truthy.\<close>

definition link_targets :: "env \<Rightarrow> url \<Rightarrow> node list \<Rightarrow> url list" where
  "link_targets env href links =
     map (\<lambda>link. url_resolve env href (the (getAttribute link ''href'')))
       (filter (\<lambda>link. truthy_attr (getAttribute link ''href'')) links)"

text \<open>\<open>registered k q s\<close>: the callback \<open>k\<close> with the derived promise \<open>q\<close> waits on
  a promise of \<open>s\<close> or is a job in the queue.\<close>

definition registered :: "kont \<Rightarrow> pid \<Rightarrow> state \<Rightarrow> bool" where
  "registered k q s =
     (list_ex (\<lambda>pr. (k, q) \<in> set (reactions pr)) (promises s)
      \<or> list_ex (\<lambda>j. fst j = k \<and> fst (snd j) = q) (queue s))"

text \<open>
  For the addresses that \<^verbatim>\<open>hrefs.forEach\<close> goes through, with the marks \<open>lh\<close> it starts
  from: whether each address was marked already when its turn came. \<open>slot\<close> is what the
  loop leaves for one address: a promise fulfilled with the placeholder when it was marked,
  and a pending promise with the recursive call registered when it was not.
\<close>

fun visited_flags :: "(url \<rightharpoonup> bool) \<Rightarrow> url list \<Rightarrow> bool list" where
  "visited_flags lh [] = []"
| "visited_flags lh (h # hs) =
     (if loaded lh h then True # visited_flags lh hs
      else False # visited_flags (lh(h \<mapsto> True)) hs)"

definition slot :: "nat \<Rightarrow> state \<Rightarrow> url \<Rightarrow> bool \<Rightarrow> pid \<Rightarrow> bool" where
  "slot lh s h v p =
     (p < length (promises s)
      \<and> pstate (promises s ! p) = (if v then Fulfilled Placeholder else Pending)
      \<and> (v \<or> registered (KChild h lh) p s))"

section \<open>Evaluation\<close>

text \<open>
  The closed theorems below run the model on concrete documents, by rewriting. For that
  each function gets an equation that binds one result at a time (\<open>let r = \<dots>\<close>, then
  \<open>fst r\<close> and \<open>snd r\<close>) in place of its pattern-matching \<open>case\<close>: with these the rewriting
  evaluates every call on a state that is already a value.
\<close>

named_theorems eval

declare all_subscribe.simps(2) [simp del] forEach.simps(2) [simp del] forEach_script.simps(2) [simp del]
  reduce.simps(2) [simp del] forEach_import.simps(2) [simp del] forEach_href.simps(2) [simp del]
  attach_each.simps(2) [simp del] drain.simps(2) [simp del] attach_loop.simps(2) [simp del]

lemmas [eval] = newPromise_def Promise_resolve_def enqueue_def subscribe_def settle_def resolve_def
  all_element_def filled_def element_callback_def module_callback_def get_elements_def get_modules_def
  concat_js_def reduceMetadata_def imports_part_def attachDomModule_def loaded_def
  script_callback_def child_callback_def deliver_def EMPTY_METADATA_def init_def metadataTree_def
  has_key_def read_html_def getAttribute_def removeAttribute_def truthy_attr_def Object_prototype_def

lemma then_p_eval [eval]:
  "then_p p k s = (let r = newPromise Pending s in (fst r, subscribe p k (fst r) (snd r)))"
  by (simp add: then_p_def case_prod_beta Let_def)

lemma loader_request_eval [eval]:
  "loader_request u s =
     (let r = newPromise Pending s in (fst r, (snd r)\<lparr>requests := requests (snd r) @ [(u, fst r)]\<rparr>))"
  by (simp add: loader_request_def case_prod_beta Let_def)

lemma all_subscribe_eval [eval]:
  "all_subscribe a i (x # xs) s =
     (let r = (case x of Prom p \<Rightarrow> (p, s) | _ \<Rightarrow> Promise_resolve x s)
      in all_subscribe a (Suc i) xs (snd (then_p (fst r) (KAllElem a i) (snd r))))"
  by (simp add: case_prod_beta all_subscribe.simps Let_def)

lemma Promise_all_eval [eval]:
  "Promise_all xs s =
     (let r = newPromise Pending s;
          s2 = (snd r)\<lparr>alls := alls (snd r) @ [\<lparr>all_values = map (\<lambda>x. None) xs, all_target = fst r\<rparr>]\<rparr>
      in if xs = [] then (fst r, settle (fst r) (Fulfilled (Arr [])) s2)
         else (fst r, all_subscribe (length (alls (snd r))) 0 xs s2))"
  by (cases xs) (simp_all add: Promise_all_def case_prod_beta Let_def)

lemma forEach_eval [eval]:
  "forEach f (x # xs) s =
     (let r = f x s in case fst r of Inl e \<Rightarrow> (Inl e, snd r) | Inr u \<Rightarrow> forEach f xs (snd r))"
  by (simp add: forEach.simps case_prod_beta Let_def split: sum.splits)

lemma register_all_eval [eval]:
  "register_all parsedJs s =
     (let r = (case js_elements parsedJs of
                 None \<Rightarrow> (Inr (), s)
               | Some es \<Rightarrow> forEach (element_callback True) es s)
      in case fst r of
           Inl e \<Rightarrow> (Inl e, snd r)
         | Inr u \<Rightarrow>
             (case js_modules parsedJs of
                None \<Rightarrow> (Inr (), snd r)
              | Some ms \<Rightarrow> forEach (module_callback False) ms (snd r)))"
  by (simp add: register_all_def case_prod_beta Let_def split: sum.splits)

lemma processScript_eval [eval]:
  "processScript env script href s =
     (if \<not> truthy_attr (getAttribute script ''src'') then
        (if childNodes script = [] then (Inl TypeError, s)
         else
           (case jsParse env (hd (childNodes script)) (this_attachAST s) of
              Inl e \<Rightarrow> (Inl e, s)
            | Inr parsedJs \<Rightarrow>
                (let r = register_all parsedJs s
                 in case fst r of
                      Inl e \<Rightarrow> (Inl e, snd r)
                    | Inr u \<Rightarrow> (Inr (Js parsedJs), snd r))))
      else if this_loader s then
        (let r1 = loader_request (url_resolve env href (the (getAttribute script ''src''))) s;
             r2 = then_p (fst r1) (KScript script href) (snd r1);
             r3 = then_p (fst r2) KRethrow (snd r2)
         in (Inr (Prom (fst r3)), snd r3))
      else
        (let r = Promise_resolve (Ref 0) s in (Inr (Prom (fst r)), snd r)))"
  by (cases "childNodes script")
     (simp_all add: processScript_def case_prod_beta Let_def split: sum.splits)

lemma forEach_script_eval [eval]:
  "forEach_script env href (script # scripts) scriptPromises s =
     (let r = processScript env script href s
      in case fst r of
           Inl e \<Rightarrow> (Inl e, snd r)
         | Inr v \<Rightarrow> forEach_script env href scripts (scriptPromises @ [v]) (snd r))"
  by (simp add: forEach_script.simps case_prod_beta Let_def split: sum.splits)

lemma processScripts_eval [eval]:
  "processScripts env scripts href s =
     (let r = forEach_script env href scripts [] s
      in case fst r of
           Inl e \<Rightarrow> (Inl e, snd r)
         | Inr scriptPromises \<Rightarrow>
             (let r1 = Promise_all scriptPromises (snd r);
                  r2 = then_p (fst r1) KReduce (snd r1)
              in (Inr (fst r2), snd r2)))"
  by (simp add: processScripts_def case_prod_beta Let_def split: sum.splits)

lemma reduce_eval [eval]:
  "reduce acc (m # ms) s = (let r = reduceMetadata acc m s in reduce (fst r) ms (snd r))"
  by (simp add: reduce.simps case_prod_beta Let_def)

lemma forEach_import_eval [eval]:
  "forEach_import env href (link # links) depHrefs deps s =
     (if truthy_attr (getAttribute link ''href'') then
        (let resolvedUrl = url_resolve env href (the (getAttribute link ''href''));
             r1 = loader_request resolvedUrl s;
             r2 = then_p (fst r1) (KParseDep resolvedUrl) (snd r1)
         in forEach_import env href links (depHrefs @ [resolvedUrl]) (deps @ [Prom (fst r2)]) (snd r2))
      else forEach_import env href links depHrefs deps s)"
  by (simp add: forEach_import.simps case_prod_beta Let_def)

lemma scripts_part_eval [eval]:
  "scripts_part env parsed href metadataLoaded0 s =
     (case p_script parsed of
        None \<Rightarrow> (Inr (metadataLoaded0, []), s)
      | Some scripts \<Rightarrow>
          (let r = processScripts env scripts href s
           in case fst r of
                Inl e \<Rightarrow> (Inl e, snd r)
              | Inr p \<Rightarrow> (Inr (p, [Prom p]), snd r)))"
  by (simp add: scripts_part_def case_prod_beta Let_def split: sum.splits option.splits)

lemma register_html_eval [eval]:
  "register_html href htmlLoaded' metadataLoaded' depHrefs deps s =
     (let r1 = Promise_all deps s;
          r2 = then_p (fst r1) (KDepHrefs depHrefs) (snd r1);
          r3 = then_p (fst r2) KRethrow (snd r2);
          m = \<lparr>doc_href = href, htmlLoaded = htmlLoaded',
               metadataLoaded = metadataLoaded', depsLoaded = fst r3\<rparr>
      in (m, (snd r3)\<lparr>this_html := (this_html (snd r3))(href \<mapsto> m)\<rparr>))"
  by (simp add: register_html_def case_prod_beta Let_def)

lemma parseHTML_eval [eval]:
  "parseHTML env htmlImport href s =
     (if has_key href (this_html s) then (Inr (read_html s href), s)
      else
        (let r0 = Promise_resolve (Ref 0) s;
             s1 = (snd r0)\<lparr>parseLog := parseLog (snd r0) @ [href]\<rparr>
         in case importParse env htmlImport of
              Inl err \<Rightarrow> (Inl err, s1)
            | Inr parsed \<Rightarrow>
                (let r1 = Promise_resolve (Parsed parsed) s1;
                     r2 = scripts_part env parsed href (fst r0) (snd r1)
                 in case fst r2 of
                      Inl e \<Rightarrow> (Inl e, snd r2)
                    | Inr md \<Rightarrow>
                        (let r3 = imports_part env parsed href (snd md) (snd r2);
                             r4 = register_html href (fst r1) (fst md) (fst r3) (fst (snd r3)) (snd (snd r3))
                         in (Inr (DocNode (fst r4)), snd r4)))))"
  by (simp add: parseHTML_def case_prod_beta Let_def split: sum.splits)

lemma attach_loop_eval [eval]:
  "attach_loop (dm # rest) element =
     (case element of
        None \<Rightarrow> Inl TypeError
      | Some e \<Rightarrow>
          if getAttribute dm ''id'' = Some (el_is e)
          then Inr (Some (e\<lparr>domModule := Some dm\<rparr>))
          else attach_loop rest element)"
  by (simp add: attach_loop.simps)

lemma attach_each_eval [eval]:
  "attach_each parsedHtml (element # rest) =
     (case attachDomModule parsedHtml element of
        Inl e \<Rightarrow> (Some e, element # rest)
      | Inr element' \<Rightarrow>
          (let r = attach_each parsedHtml rest in (fst r, element' # snd r)))"
  by (simp add: attach_each.simps case_prod_beta Let_def split: sum.splits)

lemma metadataTree'_eval [eval]:
  "metadataTree' (DocNode m) lh s =
     (let r = then_p (metadataLoaded m) (KTree1 m lh) (s\<lparr>walkLog := walkLog s @ [Start (doc_href m)]\<rparr>)
      in (Inr (Prom (fst r)), snd r))"
  "metadataTree' Inherited lh s = (Inl TypeError, s)"
  "metadataTree' NoEntry lh s = (Inl TypeError, s)"
  by (simp_all add: metadataTree'_def case_prod_beta Let_def)

lemma forEach_href_eval [eval]:
  "forEach_href lh (h # hs) depMetadata s =
     (if \<not> loaded (loadedHrefs s ! lh) h then
        (let s1 = s\<lparr>loadedHrefs := (loadedHrefs s)[lh := (loadedHrefs s ! lh)(h \<mapsto> True)]\<rparr>;
             r1 = Promise_resolve VTrue s1;
             r2 = then_p (if length depMetadata > 0 then last depMetadata else fst r1)
                    (KChild h lh) (snd r1)
         in forEach_href lh hs (depMetadata @ [fst r2]) (snd r2))
      else
        (let r = Promise_resolve Placeholder s in forEach_href lh hs (depMetadata @ [fst r]) (snd r)))"
  by (simp add: forEach_href.simps case_prod_beta Let_def)

lemma parseDep_callback_eval [eval]:
  "parseDep_callback env resolvedUrl content s =
     (let r = parseHTML env content resolvedUrl s
      in case fst r of
           Inl e \<Rightarrow> (Inl e, snd r)
         | Inr entry \<Rightarrow>
             (case entry of
                DocNode m \<Rightarrow> (Inr (Prom (depsLoaded m)), snd r)
              | Inherited \<Rightarrow> (Inr Undefined, snd r)
              | NoEntry \<Rightarrow> (Inl TypeError, snd r)))"
  by (simp add: parseDep_callback_def case_prod_beta Let_def split: sum.splits htmlEntry.splits)

lemma reduce_callback_eval [eval]:
  "reduce_callback metadataList s = (let r = reduce 0 metadataList s in (Inr (Ref (fst r)), snd r))"
  by (simp add: reduce_callback_def case_prod_beta Let_def)

lemma tree1_callback_eval [eval]:
  "tree1_callback htmlMonomer lh metadata s =
     (let r = then_p (depsLoaded htmlMonomer) (KTree2 htmlMonomer lh metadata) s
      in (Inr (Prom (fst r)), snd r))"
  by (simp add: tree1_callback_def case_prod_beta Let_def)

lemma tree2_callback_eval [eval]:
  "tree2_callback htmlMonomer lh metadata hrefs s =
     (let r1 = forEach_href lh hrefs [] s;
          r2 = Promise_all (map Prom (fst r1)) (snd r1);
          r3 = then_p (fst r2) (KTree3 htmlMonomer metadata) (snd r2)
      in (Inr (Prom (fst r3)), snd r3))"
  by (simp add: tree2_callback_def case_prod_beta Let_def)

lemma tree3_callback_eval [eval]:
  "tree3_callback htmlMonomer metadata importMetadata s =
     (let r = then_p (htmlLoaded htmlMonomer) (KTree4 htmlMonomer metadata)
                (s\<lparr>heap := (heap s)[metadata := (heap s ! metadata)
                      \<lparr>meta_imports := Some importMetadata,
                       meta_href := Some (doc_href htmlMonomer)\<rparr>]\<rparr>)
      in (Inr (Prom (fst r)), snd r))"
  by (simp add: tree3_callback_def case_prod_beta Let_def)

lemma tree4_callback_eval [eval]:
  "tree4_callback htmlMonomer metadata parsedHtml s =
     (let r = attach_each parsedHtml (elements (heap s ! metadata));
          s1 = s\<lparr>heap := (heap s)[metadata := (heap s ! metadata)
                     \<lparr>elements := snd r, meta_html := Some parsedHtml\<rparr>]\<rparr>
      in case fst r of
           Some e \<Rightarrow> (Inl e, s1)
         | None \<Rightarrow> (Inr (Ref metadata), s1\<lparr>walkLog := walkLog s1 @ [Done (doc_href htmlMonomer)]\<rparr>))"
  by (simp add: tree4_callback_def case_prod_beta Let_def)

lemma call_eval [eval]:
  "call env (KParseDep resolvedUrl) (Content content) s = parseDep_callback env resolvedUrl content s"
  "call env (KDepHrefs depHrefs) v s = (Inr (Hrefs depHrefs), s)"
  "call env KReduce (Arr metadataList) s = reduce_callback metadataList s"
  "call env (KScript script href) (Content content) s = script_callback env script href content s"
  "call env (KTree1 htmlMonomer lh) (Ref metadata) s = tree1_callback htmlMonomer lh metadata s"
  "call env (KTree2 htmlMonomer lh metadata) (Hrefs hrefs) s = tree2_callback htmlMonomer lh metadata hrefs s"
  "call env (KChild href lh) v s = child_callback href lh s"
  "call env (KTree3 htmlMonomer metadata) (Arr importMetadata) s = tree3_callback htmlMonomer metadata importMetadata s"
  "call env (KTree4 htmlMonomer metadata) (Parsed parsedHtml) s = tree4_callback htmlMonomer metadata parsedHtml s"
  by (simp_all add: call_def)

lemma runJob_eval [eval]:
  "runJob env (k, q, Pending) s = s"
  "runJob env (KAllElem a i, q, Rejected e) s =
     settle q (Fulfilled Undefined) (settle (all_target (alls s ! a)) (Rejected e) s)"
  "runJob env (KParseDep u, q, Rejected e) s = settle q (Rejected e) s"
  "runJob env (KDepHrefs hs, q, Rejected e) s = settle q (Rejected e) s"
  "runJob env (KRethrow, q, Rejected e) s = settle q (Rejected e) s"
  "runJob env (KReduce, q, Rejected e) s = settle q (Rejected e) s"
  "runJob env (KScript n u, q, Rejected e) s = settle q (Rejected e) s"
  "runJob env (KTree1 m lh, q, Rejected e) s = settle q (Rejected e) s"
  "runJob env (KTree2 m lh md, q, Rejected e) s = settle q (Rejected e) s"
  "runJob env (KChild u lh, q, Rejected e) s = settle q (Rejected e) s"
  "runJob env (KTree3 m md, q, Rejected e) s = settle q (Rejected e) s"
  "runJob env (KTree4 m md, q, Rejected e) s = settle q (Rejected e) s"
  "runJob env (KAdopt, q, Rejected e) s = settle q (Rejected e) s"
  "runJob env (KAllElem a i, q, Fulfilled v) s = settle q (Fulfilled Undefined) (all_element a i v s)"
  "runJob env (KAdopt, q, Fulfilled v) s = settle q (Fulfilled v) s"
  "runJob env (KRethrow, q, Fulfilled v) s = settle q (Fulfilled v) s"
  "runJob env (KParseDep u, q, Fulfilled v) s = finish q (call env (KParseDep u) v s)"
  "runJob env (KDepHrefs hs, q, Fulfilled v) s = finish q (call env (KDepHrefs hs) v s)"
  "runJob env (KReduce, q, Fulfilled v) s = finish q (call env KReduce v s)"
  "runJob env (KScript n u, q, Fulfilled v) s = finish q (call env (KScript n u) v s)"
  "runJob env (KTree1 m lh, q, Fulfilled v) s = finish q (call env (KTree1 m lh) v s)"
  "runJob env (KTree2 m lh md, q, Fulfilled v) s = finish q (call env (KTree2 m lh md) v s)"
  "runJob env (KChild u lh, q, Fulfilled v) s = finish q (call env (KChild u lh) v s)"
  "runJob env (KTree3 m md, q, Fulfilled v) s = finish q (call env (KTree3 m md) v s)"
  "runJob env (KTree4 m md, q, Fulfilled v) s = finish q (call env (KTree4 m md) v s)"
  by (simp_all add: runJob_def finish_def case_prod_beta split: sum.splits)

lemma finish_eval [eval]:
  "finish q r = (case fst r of Inl e \<Rightarrow> settle q (Rejected e) (snd r) | Inr w \<Rightarrow> resolve q w (snd r))"
  by (simp add: finish_def case_prod_beta split: sum.splits)

lemma drain_eval [eval]:
  "drain env (Suc n) s =
     (if queue s = [] then s else drain env n (runJob env (hd (queue s)) (s\<lparr>queue := tl (queue s)\<rparr>)))"
  by (cases "queue s") (simp_all add: drain.simps)

lemma drain_numeral [eval]:
  "drain env (numeral k) s =
     (if queue s = [] then s
      else drain env (pred_numeral k) (runJob env (hd (queue s)) (s\<lparr>queue := tl (queue s)\<rparr>)))"
  by (simp add: numeral_eq_Suc drain_eval Let_def)

lemma Monomers_eval [eval]:
  "Monomers env htmlImport attachAST href loader =
     (let r = parseHTML env htmlImport href (init attachAST loader)
      in case fst r of
           Inl e \<Rightarrow> (Inl e, snd r)
         | Inr root \<Rightarrow> (Inr (), (snd r)\<lparr>this_root := root\<rparr>))"
  by (simp add: Monomers_def case_prod_beta Let_def split: sum.splits)

text \<open>The example documents stay folded while a run is evaluated; these equations read
  their fields.\<close>

lemma example_fields [eval]:
  "attrs (import_link u) = [(''rel'', ''import''), (''href'', u)]"
  "childNodes (import_link u) = []"
  "attrs (inline_script t) = []"
  "childNodes (inline_script t) = [t]"
  "attrs (dom_module i) = [(''id'', i)]"
  "p_script (page scripts links) = Some (map inline_script scripts)"
  "p_import (page scripts links) = map import_link links"
  "p_dom_module (page scripts links) = []"
  "p_script (bare links) = None"
  "p_import (bare links) = map import_link links"
  "p_dom_module (bare links) = []"
  "js_elements (declares names) = Some (map (\<lambda>n. \<lparr>el_is = n, domModule = None\<rparr>) names)"
  "js_modules (declares names) = Some []"
  "attrs (template i n) = [(''id'', i), (''n'', n)]"
  "childNodes (template i n) = []"
  "p_script (page_with scripts links templates) = Some (map inline_script scripts)"
  "p_import (page_with scripts links templates) = map import_link links"
  "p_dom_module (page_with scripts links templates) = templates"
  by (simp_all add: import_link_def inline_script_def dom_module_def page_def bare_def declares_def
      template_def page_with_def)

lemmas [eval] = script_table_def site_env_def two_modules_def two_elements_def modules_env_def
  no_elements_def cycle_env_def serial_env_def first_env_def empty_env_def bind_env_def

section \<open>What the synchronous code does to the promises\<close>

lemma extends_refl [simp]: "extends s s"
  by (simp add: extends_def)

lemma extends_trans: "extends s s1 \<Longrightarrow> extends s1 s2 \<Longrightarrow> extends s s2"
  unfolding extends_def
  by (metis (no_types, lifting) le_trans less_le_trans prefix_order.order_trans)

lemma extends_newPromise: "extends s (snd (newPromise out s))"
  by (simp add: extends_def newPromise_def nth_append)

lemma extends_Promise_resolve: "extends s (snd (Promise_resolve v s))"
  by (simp add: Promise_resolve_def extends_newPromise)

lemma nth_list_update_if: "j < length xs \<Longrightarrow> xs[i := x] ! j = (if i = j then x else xs ! j)"
  by (cases "i = j") simp_all

lemma extends_subscribe: "extends s (subscribe p k q s)"
  by (cases "pstate (promises s ! p)")
    (auto simp add: extends_def subscribe_def enqueue_def nth_list_update_if)

lemma extends_then_p: "extends s (snd (then_p p k s))"
  using extends_trans [OF extends_newPromise extends_subscribe]
  by (simp add: then_p_def case_prod_beta)

lemma extends_loader_request: "extends s (snd (loader_request u s))"
  using extends_newPromise [of s Pending]
  by (simp add: loader_request_def case_prod_beta extends_def)

lemma extends_all_subscribe: "extends s (all_subscribe a i xs s)"
proof (induction xs arbitrary: i s)
  case Nil
  then show ?case by simp
next
  case (Cons x xs)
  let ?w = "case x of Prom p \<Rightarrow> (p, s) | _ \<Rightarrow> Promise_resolve x s"
  have "extends s (snd ?w)"
    by (cases x) (simp_all add: extends_Promise_resolve)
  from extends_trans [OF this extends_trans [OF extends_then_p Cons.IH]]
  show ?case
    by (simp add: all_subscribe.simps case_prod_beta)
qed

lemma extends_alls: "extends s s' \<Longrightarrow> extends s (s'\<lparr>alls := x\<rparr>)"
  by (simp add: extends_def)

lemma extends_Promise_all: "extends s (snd (Promise_all xs s))"
proof (cases xs)
  case Nil
  then show ?thesis
    by (simp add: Promise_all_def newPromise_def settle_def enqueue_def extends_def
        nth_append Let_def)
next
  case (Cons x xs')
  then show ?thesis
    using extends_trans [OF extends_alls [OF extends_newPromise] extends_all_subscribe]
    by (simp add: Promise_all_def case_prod_beta Let_def)
qed

lemma extends_pstate:
  "extends s s' \<Longrightarrow> p < length (promises s) \<Longrightarrow> pstate (promises s' ! p) = pstate (promises s ! p)"
  by (simp add: extends_def)

lemma extends_queue: "extends s s' \<Longrightarrow> j \<in> set (queue s) \<Longrightarrow> j \<in> set (queue s')"
  by (auto simp add: extends_def prefix_def)

lemma extends_forEach_import:
  "extends s (snd (snd (forEach_import env href links depHrefs deps s)))"
proof (induction links arbitrary: depHrefs deps s)
  case Nil
  then show ?case by simp
next
  case (Cons link links)
  show ?case
  proof (cases "truthy_attr (getAttribute link ''href'')")
    case True
    let ?u = "url_resolve env href (the (getAttribute link ''href''))"
    let ?s1 = "snd (loader_request ?u s)"
    let ?t = "then_p (fst (loader_request ?u s)) (KParseDep ?u) ?s1"
    have "extends s (snd ?t)"
      by (rule extends_trans [OF extends_loader_request extends_then_p])
    from extends_trans [OF this Cons.IH] show ?thesis
      using True by (simp add: forEach_import.simps Let_def case_prod_beta)
  next
    case False
    then show ?thesis
      using Cons.IH by (simp add: forEach_import.simps Let_def)
  qed
qed

lemma extends_imports_part: "extends s (snd (snd (imports_part env parsed href deps s)))"
  by (simp add: imports_part_def extends_forEach_import)

lemma extends_this_html: "extends s s' \<Longrightarrow> extends s (s'\<lparr>this_html := x\<rparr>)"
  by (simp add: extends_def)

lemma extends_register_html:
  "extends s (snd (register_html href hl ml depHrefs deps s))"
proof -
  let ?a = "Promise_all deps s"
  let ?b = "then_p (fst ?a) (KDepHrefs depHrefs) (snd ?a)"
  let ?c = "then_p (fst ?b) KRethrow (snd ?b)"
  have "extends s (snd ?c)"
    by (rule extends_trans [OF extends_Promise_all extends_trans [OF extends_then_p extends_then_p]])
  then show ?thesis
    by (simp add: register_html_def case_prod_beta Let_def extends_this_html)
qed

lemma register_html_entry:
  "this_html (snd (register_html href hl ml depHrefs deps s)) href =
     Some (fst (register_html href hl ml depHrefs deps s))
   \<and> doc_href (fst (register_html href hl ml depHrefs deps s)) = href
   \<and> htmlLoaded (fst (register_html href hl ml depHrefs deps s)) = hl
   \<and> metadataLoaded (fst (register_html href hl ml depHrefs deps s)) = ml"
  by (simp add: register_html_def case_prod_beta Let_def)

lemma extends_same: "promises s' = promises s \<Longrightarrow> queue s' = queue s \<Longrightarrow> extends s s'"
  by (simp add: extends_def)

lemma extends_forEach:
  assumes "\<And>x s. extends s (snd (f x s))"
  shows "extends s (snd (forEach f xs s))"
proof (induction xs arbitrary: s)
  case Nil
  then show ?case by simp
next
  case (Cons x xs)
  show ?case
    unfolding forEach_eval Let_def
    using assms [of s x] extends_trans [OF assms [of s x] Cons.IH [of "snd (f x s)"]]
    by (cases "fst (f x s)") simp_all
qed

lemma extends_register_all: "extends s (snd (register_all parsedJs s))"
proof -
  let ?e = "case js_elements parsedJs of None \<Rightarrow> (Inr (), s)
            | Some es \<Rightarrow> forEach (element_callback True) es s"
  have cb: "extends s' (snd (element_callback b e s'))" "extends s' (snd (module_callback b m s'))"
    for s' b e m
    by (simp_all add: element_callback_def module_callback_def extends_same)
  have e: "extends s (snd ?e)"
    by (simp add: extends_forEach cb split: option.splits)
  have m: "extends (snd ?e) (snd (case js_modules parsedJs of None \<Rightarrow> (Inr (), snd ?e)
            | Some ms \<Rightarrow> forEach (module_callback False) ms (snd ?e)))"
    by (simp add: extends_forEach cb split: option.splits)
  show ?thesis
    unfolding register_all_eval Let_def
    using e extends_trans [OF e m]
    by (cases "fst ?e") simp_all
qed

lemma extends_processScript: "extends s (snd (processScript env script href s))"
proof -
  have r: "extends s (snd (case fst (register_all parsedJs s) of
                 Inl e \<Rightarrow> (Inl e, snd (register_all parsedJs s))
               | Inr u \<Rightarrow> (Inr (Js parsedJs), snd (register_all parsedJs s))))" for parsedJs
    using extends_register_all [of s parsedJs]
    by (cases "fst (register_all parsedJs s)") simp_all
  have l: "extends s (snd (then_p (fst (then_p (fst (loader_request u s)) k (snd (loader_request u s))))
      k' (snd (then_p (fst (loader_request u s)) k (snd (loader_request u s))))))" for u k k'
    by (rule extends_trans [OF extends_loader_request extends_trans [OF extends_then_p extends_then_p]])
  show ?thesis
    unfolding processScript_eval Let_def
    by (simp add: r l extends_Promise_resolve split: sum.splits)
qed

lemma extends_forEach_script:
  "extends s (snd (forEach_script env href scripts ps s))"
proof (induction scripts arbitrary: ps s)
  case Nil
  then show ?case by simp
next
  case (Cons x xs)
  show ?case
    unfolding forEach_script_eval Let_def
    using extends_processScript [of s env x href]
      extends_trans [OF extends_processScript [of s env x href] Cons.IH]
    by (cases "fst (processScript env x href s)") simp_all
qed

lemma extends_processScripts: "extends s (snd (processScripts env scripts href s))"
proof -
  let ?f = "forEach_script env href scripts [] s"
  have "extends s (snd (then_p (fst (Promise_all ps (snd ?f))) KReduce
          (snd (Promise_all ps (snd ?f)))))" for ps
    by (rule extends_trans [OF extends_forEach_script
          extends_trans [OF extends_Promise_all extends_then_p]])
  then show ?thesis
    unfolding processScripts_eval Let_def
    using extends_forEach_script [of s env href scripts "[]"]
    by (cases "fst ?f") simp_all
qed

lemma extends_scripts_part: "extends s (snd (scripts_part env parsed href ml s))"
proof (cases "p_script parsed")
  case None
  then show ?thesis by (simp add: scripts_part_def)
next
  case (Some scripts)
  then show ?thesis
    unfolding scripts_part_eval Let_def
    using extends_processScripts [of s env scripts href]
    by (cases "fst (processScripts env scripts href s)") simp_all
qed

section \<open>What the code does to the table of documents\<close>

text \<open>Only \<^verbatim>\<open>_parseHTML\<close> writes \<^verbatim>\<open>this.html\<close> and calls \<^verbatim>\<open>importParse\<close>.\<close>

lemma docs_update [simp]:
  "docs (s\<lparr>promises := a\<rparr>) = docs s"
  "docs (s\<lparr>queue := b\<rparr>) = docs s"
  "docs (s\<lparr>alls := c\<rparr>) = docs s"
  "docs (s\<lparr>heap := d\<rparr>) = docs s"
  "docs (s\<lparr>requests := e\<rparr>) = docs s"
  "docs (s\<lparr>loadedHrefs := f\<rparr>) = docs s"
  "docs (s\<lparr>walkLog := g\<rparr>) = docs s"
  "docs (s\<lparr>this_elements := h\<rparr>) = docs s"
  "docs (s\<lparr>this_modules := i\<rparr>) = docs s"
  "docs (s\<lparr>this_root := j\<rparr>) = docs s"
  by (simp_all add: docs_def)

lemma docs_newPromise [simp]: "docs (snd (newPromise out s)) = docs s"
  by (simp add: newPromise_def)

lemma docs_Promise_resolve [simp]: "docs (snd (Promise_resolve v s)) = docs s"
  by (simp add: Promise_resolve_def)

lemma docs_enqueue [simp]: "docs (enqueue rs out s) = docs s"
  by (simp add: enqueue_def)

lemma docs_subscribe [simp]: "docs (subscribe p k q s) = docs s"
  by (simp add: subscribe_def split: outcome.splits)

lemma docs_then_p [simp]: "docs (snd (then_p p k s)) = docs s"
  by (simp add: then_p_def case_prod_beta)

lemma docs_settle [simp]: "docs (settle p out s) = docs s"
  by (simp add: settle_def split: outcome.splits)

lemma docs_resolve [simp]: "docs (resolve q v s) = docs s"
  by (simp add: resolve_def split: jsval.splits)

lemma docs_all_subscribe [simp]: "docs (all_subscribe a i xs s) = docs s"
  by (induction xs arbitrary: i s)
    (simp_all add: all_subscribe.simps case_prod_beta split: jsval.splits)

lemma docs_Promise_all [simp]: "docs (snd (Promise_all xs s)) = docs s"
  by (simp add: Promise_all_def case_prod_beta Let_def split: list.splits)

lemma docs_all_element [simp]: "docs (all_element a i v s) = docs s"
  by (simp add: all_element_def Let_def)

lemma docs_loader_request [simp]: "docs (snd (loader_request u s)) = docs s"
  by (simp add: loader_request_def case_prod_beta)

lemma docs_element_callback [simp]: "docs (snd (element_callback b e s)) = docs s"
  by (simp add: element_callback_def)

lemma docs_module_callback [simp]: "docs (snd (module_callback b m s)) = docs s"
  by (simp add: module_callback_def)

lemma docs_forEach:
  assumes "\<And>x s. docs (snd (f x s)) = docs s"
  shows "docs (snd (forEach f xs s)) = docs s"
proof (induction xs arbitrary: s)
  case Nil
  then show ?case by simp
next
  case (Cons x xs)
  show ?case
    using assms [of x s] Cons.IH [of "snd (f x s)"]
    by (cases "f x s"; cases "fst (f x s)") (simp_all add: forEach.simps)
qed

lemma docs_register_all [simp]: "docs (snd (register_all parsedJs s)) = docs s"
proof -
  let ?e = "case js_elements parsedJs of None \<Rightarrow> (Inr (), s)
            | Some es \<Rightarrow> forEach (element_callback True) es s"
  have e: "docs (snd ?e) = docs s"
    by (simp add: docs_forEach split: option.splits)
  show ?thesis
    using e
    by (cases ?e; cases "fst ?e")
      (auto simp add: register_all_def docs_forEach split: option.splits)
qed

lemma docs_processScript [simp]: "docs (snd (processScript env script href s)) = docs s"
proof -
  have r: "docs (snd (case register_all parsedJs s of
                 (Inl e, s1) \<Rightarrow> (Inl e, s1)
               | (Inr u, s1) \<Rightarrow> (Inr (Js parsedJs), s1))) = docs s" for parsedJs
    using docs_register_all [of parsedJs s]
    by (cases "register_all parsedJs s"; cases "fst (register_all parsedJs s)") simp_all
  show ?thesis
    by (simp add: processScript_def Let_def case_prod_beta r split: list.splits sum.splits)
qed

lemma docs_forEach_script [simp]:
  "docs (snd (forEach_script env href scripts ps s)) = docs s"
proof (induction scripts arbitrary: ps s)
  case Nil
  then show ?case by simp
next
  case (Cons x xs)
  show ?case
    using docs_processScript [of env x href s] Cons.IH
    by (cases "processScript env x href s"; cases "fst (processScript env x href s)")
      (simp_all add: forEach_script.simps)
qed

lemma docs_processScripts [simp]: "docs (snd (processScripts env scripts href s)) = docs s"
  using docs_forEach_script [of env href scripts "[]" s]
  by (cases "forEach_script env href scripts [] s";
      cases "fst (forEach_script env href scripts [] s)")
    (simp_all add: processScripts_def case_prod_beta)

lemma docs_reduce [simp]: "docs (snd (reduce acc ms s)) = docs s"
  by (induction ms arbitrary: acc s) (simp_all add: reduce.simps reduceMetadata_def)

lemma docs_forEach_import [simp]:
  "docs (snd (snd (forEach_import env href links dh deps s))) = docs s"
  by (induction links arbitrary: dh deps s)
    (simp_all add: forEach_import.simps Let_def case_prod_beta)

lemma docs_scripts_part [simp]: "docs (snd (scripts_part env parsed href ml s)) = docs s"
proof (cases "p_script parsed")
  case None
  then show ?thesis by (simp add: scripts_part_def)
next
  case (Some scripts)
  then show ?thesis
    using docs_processScripts [of env scripts href s]
    by (cases "processScripts env scripts href s";
        cases "fst (processScripts env scripts href s)")
      (simp_all add: scripts_part_def)
qed

lemma docs_imports_part [simp]: "docs (snd (snd (imports_part env parsed href deps s))) = docs s"
  by (simp add: imports_part_def)

lemma docs_metadataTree' [simp]: "docs (snd (metadataTree' e lh s)) = docs s"
  by (cases e) (simp_all add: metadataTree'_def case_prod_beta)

lemma docs_forEach_href [simp]: "docs (snd (forEach_href lh hrefs dm s)) = docs s"
  by (induction hrefs arbitrary: dm s)
    (simp_all add: forEach_href.simps Let_def case_prod_beta)

lemma docs_script_callback [simp]: "docs (snd (script_callback env script href content s)) = docs s"
  by (simp add: script_callback_def)

lemma docs_reduce_callback [simp]: "docs (snd (reduce_callback ms s)) = docs s"
  by (simp add: reduce_callback_def case_prod_beta)

lemma docs_tree_callbacks [simp]:
  "docs (snd (tree1_callback m lh a s)) = docs s"
  "docs (snd (tree2_callback m lh a hrefs s)) = docs s"
  "docs (snd (tree3_callback m a ims s)) = docs s"
  "docs (snd (tree4_callback m a parsedHtml s)) = docs s"
  "docs (snd (child_callback href lh s)) = docs s"
  by (simp_all add: tree1_callback_def tree2_callback_def tree3_callback_def
      tree4_callback_def child_callback_def case_prod_beta Let_def split: option.splits)

lemma kept_docs: "docs s' = docs s \<Longrightarrow> kept h s s'"
  by (simp add: kept_def docs_def)

lemma kept_trans: "kept h s s1 \<Longrightarrow> kept h s1 s2 \<Longrightarrow> kept h s s2"
  by (simp add: kept_def)

lemma register_html_docs:
  "this_html (snd (register_html href hl ml dh deps s)) =
     (this_html s)(href \<mapsto> fst (register_html href hl ml dh deps s))
   \<and> parseLog (snd (register_html href hl ml dh deps s)) = parseLog s"
proof -
  let ?a = "Promise_all deps s"
  let ?b = "then_p (fst ?a) (KDepHrefs dh) (snd ?a)"
  let ?c = "then_p (fst ?b) KRethrow (snd ?b)"
  have "docs (snd ?c) = docs s"
    by simp
  then show ?thesis
    by (simp add: register_html_def case_prod_beta Let_def docs_def)
qed

lemma parseHTML_docs:
  "parseLog (snd (parseHTML env htmlImport href s)) =
     (if has_key href (this_html s) then parseLog s else parseLog s @ [href])
   \<and> (\<forall>h. h \<noteq> href \<longrightarrow> this_html (snd (parseHTML env htmlImport href s)) h = this_html s h)
   \<and> (has_key href (this_html s) \<longrightarrow> this_html (snd (parseHTML env htmlImport href s)) = this_html s)
   \<and> (\<forall>r. fst (parseHTML env htmlImport href s) = Inr r \<longrightarrow>
         has_key href (this_html (snd (parseHTML env htmlImport href s))))"
proof (cases "has_key href (this_html s)")
  case True
  then show ?thesis by (simp add: parseHTML_def)
next
  case False
  let ?ra = "Promise_resolve (Ref 0) s"
  let ?s1 = "(snd ?ra)\<lparr>parseLog := parseLog (snd ?ra) @ [href]\<rparr>"
  have s1: "this_html ?s1 = this_html s \<and> parseLog ?s1 = parseLog s @ [href]"
    using docs_Promise_resolve [of "Ref 0" s] by (simp add: docs_def)
  show ?thesis
  proof (cases "importParse env htmlImport")
    case (Inl err)
    then show ?thesis
      using False s1 unfolding parseHTML_eval Let_def by simp
  next
    case (Inr parsed)
    let ?rb = "Promise_resolve (Parsed parsed) ?s1"
    let ?rc = "scripts_part env parsed href (fst ?ra) (snd ?rb)"
    have s3: "docs (snd ?rc) = docs ?s1"
      by simp
    show ?thesis
    proof (cases "fst ?rc")
      case (Inl e)
      then show ?thesis
        using False s1 s3 Inr unfolding parseHTML_eval Let_def by (simp add: docs_def)
    next
      case (Inr md)
      let ?i = "imports_part env parsed href (snd md) (snd ?rc)"
      let ?r = "register_html href (fst ?rb) (fst md) (fst ?i) (fst (snd ?i)) (snd (snd ?i))"
      have "docs (snd (snd ?i)) = docs ?s1"
        using s3 by simp
      then have "this_html (snd ?r) = (this_html s)(href \<mapsto> fst ?r) \<and> parseLog (snd ?r) = parseLog s @ [href]"
        using s1 register_html_docs [of href "fst ?rb" "fst md" "fst ?i" "fst (snd ?i)" "snd (snd ?i)"]
        by (simp add: docs_def)
      then show ?thesis
        using False Inr \<open>importParse env htmlImport = Inr parsed\<close>
        unfolding parseHTML_eval Let_def by (simp add: has_key_def)
    qed
  qed
qed

lemma kept_parseHTML: "kept h s (snd (parseHTML env htmlImport href s))"
proof (cases "h = href")
  case True
  then show ?thesis
    using parseHTML_docs [of env htmlImport href s] by (simp add: kept_def)
next
  case False
  then show ?thesis
    using parseHTML_docs [of env htmlImport href s]
    by (auto simp add: kept_def has_key_def)
qed

lemma kept_parseDep_callback: "kept h s (snd (parseDep_callback env u content s))"
proof -
  have "snd (parseDep_callback env u content s) = snd (parseHTML env content u s)"
    by (simp add: parseDep_callback_def case_prod_beta split: sum.splits htmlEntry.splits)
  then show ?thesis
    by (simp add: kept_parseHTML)
qed

lemma kept_call: "kept h s (snd (call env k v s))"
  by (cases k; cases v) (simp_all add: call_def kept_parseDep_callback kept_docs)

lemma docs_finish: "docs (finish q r) = docs (snd r)"
  by (cases r; cases "fst r") (simp_all add: finish_def)

lemma kept_runJob: "kept h s (runJob env j s)"
proof -
  obtain k q out where j: "j = (k, q, out)"
    by (cases j)
  have "kept h s (finish q (call env k v s))" for v
    using kept_call [of h s env k v] docs_finish [of q "call env k v s"]
    by (simp add: kept_def docs_def)
  then show ?thesis
    by (cases out; cases k) (simp_all add: runJob_def j kept_docs)
qed

lemma kept_drain: "kept h s (drain env n s)"
proof (induction n arbitrary: s)
  case 0
  then show ?case by (simp add: kept_def)
next
  case (Suc n)
  show ?case
  proof (cases "queue s")
    case Nil
    then show ?thesis by (simp add: drain.simps kept_def)
  next
    case (Cons j js)
    have "kept h s (s\<lparr>queue := js\<rparr>)"
      by (simp add: kept_docs)
    from kept_trans [OF kept_trans [OF this kept_runJob] Suc.IH]
    show ?thesis
      using Cons by (simp add: drain.simps)
  qed
qed

lemma kept_deliver: "kept h s (deliver ev s)"
  by (cases ev) (simp_all add: deliver_def kept_docs)

lemma kept_run: "kept h s (run env n evs s)"
proof (induction evs arbitrary: s)
  case Nil
  then show ?case by (simp add: kept_drain)
next
  case (Cons ev evs)
  from kept_trans [OF kept_trans [OF kept_drain kept_deliver] Cons.IH]
  show ?case by simp
qed

lemma requests_then_p: "requests (snd (then_p p k s)) = requests s"
  by (simp add: then_p_def newPromise_def subscribe_def enqueue_def case_prod_beta
      split: outcome.splits)

lemma forEach_import_requests:
  "fst (forEach_import env href links dh deps s) = dh @ link_targets env href links
   \<and> map fst (requests (snd (snd (forEach_import env href links dh deps s)))) =
       map fst (requests s) @ link_targets env href links"
proof (induction links arbitrary: dh deps s)
  case Nil
  then show ?case by (simp add: link_targets_def)
next
  case (Cons link links)
  show ?case
    using Cons.IH
    by (simp add: forEach_import.simps Let_def case_prod_beta link_targets_def
        requests_then_p loader_request_def newPromise_def)
qed

section \<open>The loop over the addresses of a document\<close>

lemma loaded_update: "loaded (m(h \<mapsto> True)) x = (x = h \<or> loaded m x)"
  by (simp add: loaded_def)

lemma visited_flags_length [simp]: "length (visited_flags m hs) = length hs"
  by (induction hs arbitrary: m) simp_all

lemma visited_flags_nth:
  "i < length hs \<Longrightarrow>
     visited_flags m hs ! i = (loaded m (hs ! i) \<or> hs ! i \<in> set (take i hs))"
proof (induction hs arbitrary: m i)
  case Nil
  then show ?case by simp
next
  case (Cons h hs)
  show ?case
  proof (cases i)
    case 0
    then show ?thesis by simp
  next
    case (Suc j)
    then have j: "j < length hs"
      using Cons.prems by simp
    show ?thesis
    proof (cases "loaded m h")
      case True
      then show ?thesis
        using Cons.IH [OF j, of m] Suc by auto
    next
      case False
      have "visited_flags (m(h \<mapsto> True)) hs ! j =
              (hs ! j = h \<or> loaded m (hs ! j) \<or> hs ! j \<in> set (take j hs))"
        unfolding Cons.IH [OF j] loaded_update by simp
      then show ?thesis
        using False Suc by auto
    qed
  qed
qed

lemma visited_flags_marks:
  "loaded (foldl (\<lambda>m h. if loaded m h then m else m(h \<mapsto> True)) m hs) x =
     (loaded m x \<or> x \<in> set hs)"
  by (induction hs arbitrary: m) (auto simp add: loaded_update)

lemma registered_iff:
  "registered k q s =
     ((\<exists>p<length (promises s). (k, q) \<in> set (reactions (promises s ! p)))
      \<or> (\<exists>out. (k, q, out) \<in> set (queue s)))"
proof -
  have "list_ex (\<lambda>pr. (k, q) \<in> set (reactions pr)) (promises s) =
          (\<exists>p<length (promises s). (k, q) \<in> set (reactions (promises s ! p)))"
    unfolding list_ex_iff by (metis in_set_conv_nth)
  moreover have "list_ex (\<lambda>j. fst j = k \<and> fst (snd j) = q) (queue s) =
          (\<exists>out. (k, q, out) \<in> set (queue s))"
    unfolding list_ex_iff by force
  ultimately show ?thesis
    by (simp add: registered_def)
qed

lemma registered_extends:
  assumes "extends s s'" and "registered k q s"
  shows "registered k q s'"
proof -
  from assms(2) consider
    (r) p where "p < length (promises s)" "(k, q) \<in> set (reactions (promises s ! p))"
  | (j) out where "(k, q, out) \<in> set (queue s)"
    unfolding registered_iff by blast
  then show ?thesis
  proof cases
    case r
    then have "(k, q) \<in> set (reactions (promises s' ! p))" and "p < length (promises s')"
      using assms(1) by (auto simp add: extends_def dest: set_mono_prefix)
    then show ?thesis
      unfolding registered_iff by blast
  next
    case j
    then have "(k, q, out) \<in> set (queue s')"
      using assms(1) by (auto simp add: extends_def dest: set_mono_prefix)
    then show ?thesis
      unfolding registered_iff by blast
  qed
qed

lemma slot_extends: "extends s s' \<Longrightarrow> slot lh s h v p \<Longrightarrow> slot lh s' h v p"
  using registered_extends [of s s' "KChild h lh" p]
  by (auto simp add: slot_def extends_def)

lemma then_p_registered:
  assumes "p < length (promises s)"
  shows "fst (then_p p k s) = length (promises s)
         \<and> length (promises (snd (then_p p k s))) = Suc (length (promises s))
         \<and> pstate (promises (snd (then_p p k s)) ! length (promises s)) = Pending
         \<and> registered k (length (promises s)) (snd (then_p p k s))"
proof (cases "pstate (promises s ! p)")
  case Pending
  let ?ps = "(promises s @ [\<lparr>pstate = Pending, reactions = []\<rparr>])
      [p := (promises s ! p)\<lparr>reactions := reactions (promises s ! p) @ [(k, length (promises s))]\<rparr>]"
  have s': "snd (then_p p k s) = s\<lparr>promises := ?ps\<rparr>"
    using assms Pending
    by (simp add: then_p_def newPromise_def subscribe_def nth_append)
  have "(k, length (promises s)) \<in> set (reactions (?ps ! p))" and "p < length ?ps"
    using assms by (simp_all add: nth_list_update_if)
  then have "registered k (length (promises s)) (s\<lparr>promises := ?ps\<rparr>)"
    unfolding registered_iff by (intro disjI1 exI [of _ p]) simp
  then show ?thesis
    using assms by (simp add: s') (simp add: then_p_def newPromise_def nth_list_update_if)
next
  case (Fulfilled v)
  then show ?thesis
    using assms
    by (simp add: then_p_def newPromise_def subscribe_def enqueue_def registered_def nth_append)
next
  case (Rejected e)
  then show ?thesis
    using assms
    by (simp add: then_p_def newPromise_def subscribe_def enqueue_def registered_def nth_append)
qed

lemma loadedHrefs_then_p: "loadedHrefs (snd (then_p p k s)) = loadedHrefs s"
  by (simp add: then_p_def newPromise_def subscribe_def enqueue_def split: outcome.splits)

lemma extends_loadedHrefs: "extends s (s\<lparr>loadedHrefs := x\<rparr>)"
  by (simp add: extends_def)

lemma forEach_href_slots:
  assumes "lh < length (loadedHrefs s)" and "\<forall>p\<in>set acc. p < length (promises s)"
  shows "\<exists>new. fst (forEach_href lh hrefs acc s) = acc @ new
           \<and> extends s (snd (forEach_href lh hrefs acc s))
           \<and> length (loadedHrefs (snd (forEach_href lh hrefs acc s))) = length (loadedHrefs s)
           \<and> list_all2 (\<lambda>hv p. slot lh (snd (forEach_href lh hrefs acc s)) (fst hv) (snd hv) p)
                 (zip hrefs (visited_flags (loadedHrefs s ! lh) hrefs)) new
           \<and> loadedHrefs (snd (forEach_href lh hrefs acc s)) ! lh =
               foldl (\<lambda>m h. if loaded m h then m else m(h \<mapsto> True)) (loadedHrefs s ! lh) hrefs"
  using assms
proof (induction hrefs arbitrary: acc s)
  case Nil
  then show ?case by simp
next
  case (Cons h hs)
  show ?case
  proof (cases "loaded (loadedHrefs s ! lh) h")
    case True
    let ?p = "length (promises s)"
    let ?s1 = "snd (Promise_resolve Placeholder s)"
    let ?f = "forEach_href lh hs (acc @ [?p]) ?s1"
    have step: "forEach_href lh (h # hs) acc s = ?f"
      using True by (simp add: forEach_href.simps Promise_resolve_def newPromise_def)
    have e1: "extends s ?s1"
      by (rule extends_Promise_resolve)
    have l1: "loadedHrefs ?s1 = loadedHrefs s"
      by (simp add: Promise_resolve_def newPromise_def)
    have pre: "lh < length (loadedHrefs ?s1)" "\<forall>p\<in>set (acc @ [?p]). p < length (promises ?s1)"
      using Cons.prems by (auto simp add: Promise_resolve_def newPromise_def)
    from Cons.IH [OF pre] obtain new where new:
      "fst ?f = (acc @ [?p]) @ new" "extends ?s1 (snd ?f)"
      "length (loadedHrefs (snd ?f)) = length (loadedHrefs ?s1)"
      "list_all2 (\<lambda>hv p. slot lh (snd ?f) (fst hv) (snd hv) p)
         (zip hs (visited_flags (loadedHrefs ?s1 ! lh) hs)) new"
      "loadedHrefs (snd ?f) ! lh =
         foldl (\<lambda>m h. if loaded m h then m else m(h \<mapsto> True)) (loadedHrefs ?s1 ! lh) hs"
      by blast
    have "slot lh ?s1 h True ?p"
      by (simp add: slot_def Promise_resolve_def newPromise_def)
    then have "slot lh (snd ?f) h True ?p"
      by (rule slot_extends [OF new(2)])
    then show ?thesis
      using new True extends_trans [OF e1 new(2)]
      by (intro exI [of _ "?p # new"]) (simp add: step l1)
  next
    case False
    let ?s1 = "s\<lparr>loadedHrefs := (loadedHrefs s)[lh := (loadedHrefs s ! lh)(h \<mapsto> True)]\<rparr>"
    define w where "w = Promise_resolve VTrue ?s1"
    define mp where "mp = (if length acc > 0 then last acc else fst w)"
    define t where "t = then_p mp (KChild h lh) (snd w)"
    define q where "q = length (promises (snd w))"
    define f where "f = forEach_href lh hs (acc @ [q]) (snd t)"
    have w: "mp < length (promises (snd w))" "extends ?s1 (snd w)"
      "loadedHrefs (snd w) = loadedHrefs ?s1"
      "length (promises s) \<le> length (promises (snd w))"
      using Cons.prems(2) extends_Promise_resolve [of ?s1 VTrue]
      by (auto simp add: w_def mp_def Promise_resolve_def newPromise_def less_Suc_eq)
    have tr: "fst t = q" "length (promises (snd t)) = Suc q"
      "pstate (promises (snd t) ! q) = Pending" "registered (KChild h lh) q (snd t)"
      using then_p_registered [OF w(1), of "KChild h lh"] by (simp_all add: t_def q_def)
    have "forEach_href lh (h # hs) acc s = forEach_href lh hs (acc @ [fst t]) (snd t)"
      using False
      by (simp add: forEach_href.simps Let_def case_prod_beta t_def w_def mp_def)
    then have step: "forEach_href lh (h # hs) acc s = f"
      by (simp only: tr(1) f_def)
    have e3: "extends s (snd t)"
      unfolding t_def
      by (rule extends_trans [OF extends_loadedHrefs extends_trans [OF w(2) extends_then_p]])
    have l3: "loadedHrefs (snd t) = (loadedHrefs s)[lh := (loadedHrefs s ! lh)(h \<mapsto> True)]"
      using w(3) by (simp add: t_def loadedHrefs_then_p)
    have l3': "length (loadedHrefs (snd t)) = length (loadedHrefs s)"
      "loadedHrefs (snd t) ! lh = (loadedHrefs s ! lh)(h \<mapsto> True)"
      using Cons.prems(1) by (simp_all add: l3)
    have "lh < length (loadedHrefs (snd t))"
      using Cons.prems(1) by (simp add: l3')
    moreover have "\<forall>p\<in>set (acc @ [q]). p < length (promises (snd t))"
      using Cons.prems(2) tr(2) w(4) by (auto simp add: q_def)
    ultimately have "\<exists>new. fst f = (acc @ [q]) @ new
           \<and> extends (snd t) (snd f)
           \<and> length (loadedHrefs (snd f)) = length (loadedHrefs (snd t))
           \<and> list_all2 (\<lambda>hv p. slot lh (snd f) (fst hv) (snd hv) p)
                 (zip hs (visited_flags (loadedHrefs (snd t) ! lh) hs)) new
           \<and> loadedHrefs (snd f) ! lh =
               foldl (\<lambda>m h. if loaded m h then m else m(h \<mapsto> True)) (loadedHrefs (snd t) ! lh) hs"
      unfolding f_def by (rule Cons.IH)
    then obtain new where new:
      "fst f = (acc @ [q]) @ new" "extends (snd t) (snd f)"
      "length (loadedHrefs (snd f)) = length (loadedHrefs s)"
      "list_all2 (\<lambda>hv p. slot lh (snd f) (fst hv) (snd hv) p)
         (zip hs (visited_flags ((loadedHrefs s ! lh)(h \<mapsto> True)) hs)) new"
      "loadedHrefs (snd f) ! lh =
         foldl (\<lambda>m h. if loaded m h then m else m(h \<mapsto> True)) ((loadedHrefs s ! lh)(h \<mapsto> True)) hs"
      unfolding l3' by blast
    have "slot lh (snd t) h False q"
      using tr by (simp add: slot_def)
    then have "slot lh (snd f) h False q"
      by (rule slot_extends [OF new(2)])
    then show ?thesis
      using new(1,3,4,5) False extends_trans [OF e3 new(2)]
      by (intro exI [of _ "q # new"]) (simp add: step)
  qed
qed

section \<open>Structural binding\<close>

text \<open>What the loop of \<^verbatim>\<open>attachDomModule\<close> computes: the element with the first
  \<^verbatim>\<open>dom-module\<close> whose \<^verbatim>\<open>id\<close> is the element's name bound to it, or the element as it
  was when there is none.\<close>

lemma attach_loop_find:
  "attach_loop dms (Some e) =
     Inr (Some (case find (\<lambda>d. getAttribute d ''id'' = Some (el_is e)) dms of
                  None \<Rightarrow> e
                | Some d \<Rightarrow> e\<lparr>domModule := Some d\<rparr>))"
  by (induction dms) (simp_all add: attach_loop.simps)

lemma attach_each_Some:
  "attach_each parsed (map Some es) =
     (None, map (\<lambda>e. Some (case find (\<lambda>d. getAttribute d ''id'' = Some (el_is e))
                                  (p_dom_module parsed) of
                             None \<Rightarrow> e
                           | Some d \<Rightarrow> e\<lparr>domModule := Some d\<rparr>)) es)"
  by (induction es) (simp_all add: attach_each.simps attachDomModule_def attach_loop_find)

text \<open>Where the two arguments of \<^verbatim>\<open>attachDomModule\<close> come from in \<^verbatim>\<open>_metadataTree\<close>:
  the structure is what the document's own \<^verbatim>\<open>htmlLoaded\<close> resolved to, and that is what
  \<^verbatim>\<open>importParse\<close> made of the document's own text.\<close>

lemma parseHTML_htmlLoaded:
  assumes "\<not> has_key href (this_html s)" and "importParse env htmlImport = Inr parsed"
    and "fst (parseHTML env htmlImport href s) = Inr r"
  shows "\<exists>m. r = DocNode m \<and> doc_href m = href
           \<and> this_html (snd (parseHTML env htmlImport href s)) href = Some m
           \<and> htmlLoaded m < length (promises (snd (parseHTML env htmlImport href s)))
           \<and> pstate (promises (snd (parseHTML env htmlImport href s)) ! htmlLoaded m) =
               Fulfilled (Parsed parsed)"
proof -
  let ?ra = "Promise_resolve (Ref 0) s"
  let ?rb = "Promise_resolve (Parsed parsed) ((snd ?ra)\<lparr>parseLog := parseLog (snd ?ra) @ [href]\<rparr>)"
  let ?rc = "scripts_part env parsed href (fst ?ra) (snd ?rb)"
  obtain md where md: "fst ?rc = Inr md"
    using assms unfolding parseHTML_eval Let_def by (cases "fst ?rc") simp_all
  let ?i = "imports_part env parsed href (snd md) (snd ?rc)"
  let ?r = "register_html href (fst ?rb) (fst md) (fst ?i) (fst (snd ?i)) (snd (snd ?i))"
  have p: "parseHTML env htmlImport href s = (Inr (DocNode (fst ?r)), snd ?r)"
    unfolding parseHTML_eval Let_def by (simp add: assms(1,2) md)
  have e: "extends (snd ?rb) (snd ?r)"
    by (rule extends_trans [OF extends_scripts_part
          extends_trans [OF extends_imports_part extends_register_html]])
  have b: "fst ?rb < length (promises (snd ?rb))"
    "pstate (promises (snd ?rb) ! fst ?rb) = Fulfilled (Parsed parsed)"
    by (simp_all add: Promise_resolve_def newPromise_def nth_append)
  have "pstate (promises (snd ?r) ! fst ?rb) = Fulfilled (Parsed parsed)"
    "fst ?rb < length (promises (snd ?r))"
    using extends_pstate [OF e b(1)] b e by (simp_all add: extends_def)
  then show ?thesis
    using register_html_entry [of href "fst ?rb" "fst md" "fst ?i" "fst (snd ?i)" "snd (snd ?i)"]
      assms(3)
    by (simp add: p)
qed

lemma tree3_callback_queues:
  assumes "htmlLoaded m < length (promises s)"
    and "pstate (promises s ! htmlLoaded m) = Fulfilled (Parsed parsed)"
  shows "fst (tree3_callback m a importMetadata s) = Inr (Prom (length (promises s)))
         \<and> queue (snd (tree3_callback m a importMetadata s)) =
             queue s @ [(KTree4 m a, length (promises s), Fulfilled (Parsed parsed))]"
  using assms
  by (simp add: tree3_callback_def then_p_def newPromise_def subscribe_def enqueue_def
      nth_append)

lemma runJob_KTree4:
  "runJob env (KTree4 m a, q, Fulfilled (Parsed parsedHtml)) s =
     finish q (tree4_callback m a parsedHtml s)"
  by (simp add: runJob_def call_def)

lemma tree4_callback_binds:
  assumes "elements (heap s ! a) = map Some es"
  shows "tree4_callback m a parsedHtml s =
     (Inr (Ref a),
      s\<lparr>heap := (heap s)[a := (heap s ! a)
           \<lparr>elements :=
              map (\<lambda>e. Some (case find (\<lambda>d. getAttribute d ''id'' = Some (el_is e))
                                      (p_dom_module parsedHtml) of
                                 None \<Rightarrow> e
                               | Some d \<Rightarrow> e\<lparr>domModule := Some d\<rparr>)) es,
            meta_html := Some parsedHtml\<rparr>],
        walkLog := walkLog s @ [Done (doc_href m)]\<rparr>)"
  by (simp add: tree4_callback_def assms attach_each_Some Let_def)

lemma bind2_run:
  "(let s = bind2 in
      pstate (promises s ! 13) = Fulfilled (Ref 1)
      \<and> map (\<lambda>m. (meta_href m, elements m)) (heap s) =
          [(None, []),
           (Some ''R'',
            [Some \<lparr>el_is = ''x-r'', domModule = Some (template ''x-r'' ''1'')\<rparr>,
             Some \<lparr>el_is = ''x-c'', domModule = None\<rparr>]),
           (Some ''B'',
            [Some \<lparr>el_is = ''x-b'', domModule = Some (template ''x-b'' ''3'')\<rparr>])])"
  by (simp add: bind2_def bind1_def bind0_def eval Let_def cong: let_weak_cong)



section \<open>Registration\<close>

text \<open>The element half of the registration: an element whose name is in the registry is
  refused with the error that names it, and the registry stays as it was.\<close>

lemma element_callback_duplicate:
  assumes "this_elements s (el_is e) = Some e'"
  shows "element_callback True e s =
           (Inl (Error (''Duplicate element definition: '' @ el_is e)), s)"
  using assms by (simp add: element_callback_def has_key_def)

lemma two_elements_duplicate:
  "fst (register_all two_elements (init False False)) =
     Inl (Error ''Duplicate element definition: x-a'')"
  by (simp add: eval Let_def cong: let_weak_cong)

text \<open>
  C1. The claim asks that a second module with a registered name fails with the
  duplicate-definition error, as a second element does. The code does not get that far:
  the callback that registers modules is not bound, so the first module of any script
  already fails with a TypeError, whatever the registry holds, and no module is ever
  registered. Here the document M has one script, which declares the module \<open>m\<close> twice:
  the constructor fails with the TypeError, not with
  \<open>Duplicate module definition: m\<close>, and \<^verbatim>\<open>this.modules\<close> is still empty.
\<close>

theorem C1_module_registration_TypeError:
  "fst (Monomers modules_env ''<M>'' False ''M'' False) = Inl TypeError
   \<and> this_modules (snd (Monomers modules_env ''<M>'' False ''M'' False)) ''m'' = None
   \<and> module_callback False module s = (Inl TypeError, s)"
  by (simp add: module_callback_def) (simp add: eval Let_def cong: let_weak_cong)

section \<open>A cycle of imports\<close>

text \<open>
  C2. The claim asks that \<^verbatim>\<open>metadataTree()\<close> resolves when A imports B and B imports A.
  In the code it never does. The constructor parses A and asks the loader for B; B's text
  arrives, B is parsed and the loader is asked for A; A's text arrives, \<^verbatim>\<open>_parseHTML\<close>
  finds A in the table and the callback returns A's \<^verbatim>\<open>depsLoaded\<close>. Now A's
  \<^verbatim>\<open>depsLoaded\<close> (promise 10) waits for the promise of the link to B (promise 5), which
  follows B's \<^verbatim>\<open>depsLoaded\<close> (promise 23), which waits for the promise of the link to A
  (promise 18), which follows A's \<^verbatim>\<open>depsLoaded\<close>. Both requests have been answered and
  the job queue is empty, so nothing will ever run again, and the promise that
  \<^verbatim>\<open>metadataTree()\<close> returned (promise 11) is still pending: its one callback so far has
  registered the next one on A's \<^verbatim>\<open>depsLoaded\<close>. The walk has started A and nothing else.
\<close>

theorem C2_cycle_never_resolves:
  "(let s = cycle2 in
     fst (metadataTree cycle0) = Inr (Prom 11)
     \<and> map fst (requests s) = [''B'', ''A'']
     \<and> map (\<lambda>r. pstate (promises s ! snd r)) (requests s) =
         [Fulfilled (Content ''<B>''), Fulfilled (Content ''<A>'')]
     \<and> queue s = []
     \<and> pstate (promises s ! 11) = Pending
     \<and> map (\<lambda>p. pstate (promises s ! p)) [10, 5, 23, 18] = [Pending, Pending, Pending, Pending]
     \<and> reactions (promises s ! 10) =
         [(KTree2 \<lparr>doc_href = ''A'', htmlLoaded = 1, metadataLoaded = 3, depsLoaded = 10\<rparr> 0 0, 12),
          (KAdopt, 18)]
     \<and> reactions (promises s ! 23) = [(KAdopt, 5)]
     \<and> walkLog s = [Start ''A''])"
  by (simp add: cycle2_def cycle1_def cycle0_def eval Let_def cong: let_weak_cong)

section \<open>Fetching and parsing\<close>

text \<open>In the constructor of R, which imports B twice and then C, the loader is asked for
  B twice.\<close>

theorem C3_fetched_twice:
  "map fst (requests serial0) = [''B'', ''B'', ''C'']
   \<and> count_list (map fst (requests serial0)) ''B'' = 2"
  by (simp add: serial0_def eval Let_def cong: let_weak_cong)

text \<open>
  C3, as the code has it. Parsing is memoised on the table: once an address is in
  \<^verbatim>\<open>this.html\<close> it stays there and no later step of the run parses it again, whatever the
  loader delivers and however many links target it; \<^verbatim>\<open>_parseHTML\<close> calls \<^verbatim>\<open>importParse\<close>
  exactly when the address is not in the table, and when it returns the address is in the
  table. So an address is parsed at most once from its first successful resolve on.
  Fetching is not memoised: \<^verbatim>\<open>_parseHTML\<close> calls \<^verbatim>\<open>loader.request\<close> once for every import
  link that carries an address, in the order of the links, whether or not the address
  was requested or resolved before.
\<close>

theorem C3_parsed_once_requested_per_link:
  "(has_key h (this_html s) \<longrightarrow>
      has_key h (this_html (run env n evs s))
      \<and> count_list (parseLog (run env n evs s)) h = count_list (parseLog s) h)
   \<and> parseLog (snd (parseHTML env' htmlImport href s')) =
       (if has_key href (this_html s') then parseLog s' else parseLog s' @ [href])
   \<and> ((\<exists>r. fst (parseHTML env' htmlImport href s') = Inr r) \<longrightarrow>
       has_key href (this_html (snd (parseHTML env' htmlImport href s'))))
   \<and> (this_loader t \<longrightarrow>
       fst (imports_part env'' parsed href' deps t) = link_targets env'' href' (p_import parsed)
       \<and> map fst (requests (snd (snd (imports_part env'' parsed href' deps t)))) =
           map fst (requests t) @ link_targets env'' href' (p_import parsed))"
  using kept_run [of h s env n evs] parseHTML_docs [of env' htmlImport href s']
    forEach_import_requests [of env'' href' "p_import parsed" "[]" deps t]
  by (simp add: kept_def imports_part_def)

theorem C3_parsed_once_requested_per_link_witness:
  "(let s = run cycle_env 100 [Respond 0 ''<B>'', Respond 1 ''<A>''] cycle0
    in has_key ''A'' (this_html cycle0) \<and> has_key ''A'' (this_html s)
       \<and> count_list (parseLog s) ''A'' = 1)
   \<and> (let s = snd (parseHTML cycle_env ''<B>'' ''B'' cycle0)
      in parseLog s = [''A'', ''B''] \<and> has_key ''B'' (this_html s))
   \<and> (let r = imports_part serial_env (page [] [''B'', ''B'', ''C'']) ''R'' [] (init False True)
      in fst r = [''B'', ''B'', ''C'']
         \<and> map fst (requests (snd (snd r))) = [''B'', ''B'', ''C''])"
  using C3_parsed_once_requested_per_link [of "''A''" cycle0 cycle_env 100
      "[Respond 0 ''<B>'', Respond 1 ''<A>'']" cycle_env "''<B>''" "''B''" cycle0
      "init False True" serial_env "page [] [''B'', ''B'', ''C'']" "''R''" "[]"]
  by (simp add: cycle0_def link_targets_def eval Let_def cong: let_weak_cong)

section \<open>Memoization\<close>

text \<open>
  C4. \<^verbatim>\<open>this.html\<close> is a map, so it holds at most one node per address. A call of
  \<^verbatim>\<open>_parseHTML\<close> for an address that is in the table returns the node of the table and
  leaves the whole state as it was: nothing is parsed (\<open>parseLog\<close> is part of the state),
  no promise is made and the loader is not asked.
\<close>

theorem C4_parseHTML_idempotent:
  assumes "this_html s href = Some m"
  shows "parseHTML env htmlImport href s = (Inr (DocNode m), s)"
  using assms by (simp add: parseHTML_def has_key_def read_html_def)

lemma cycle0_html_A:
  "this_html cycle0 ''A'' =
     Some \<lparr>doc_href = ''A'', htmlLoaded = 1, metadataLoaded = 3, depsLoaded = 10\<rparr>"
  by (simp add: cycle0_def eval Let_def cong: let_weak_cong)

theorem C4_parseHTML_idempotent_witness:
  "this_html cycle0 ''A'' =
     Some \<lparr>doc_href = ''A'', htmlLoaded = 1, metadataLoaded = 3, depsLoaded = 10\<rparr>
   \<and> parseHTML cycle_env ''<B>'' ''A'' cycle0 =
       (Inr (DocNode \<lparr>doc_href = ''A'', htmlLoaded = 1, metadataLoaded = 3, depsLoaded = 10\<rparr>),
        cycle0)"
  using cycle0_html_A C4_parseHTML_idempotent [OF cycle0_html_A] by simp

section \<open>The order of the walk\<close>

text \<open>
  C5. The first half of the claim holds: \<^verbatim>\<open>imports\<close> has one entry per link that carries
  an address, in the order of the links (here B, the placeholder for the second B, C). The
  second half asks that the build of a child starts only after the build of the previous
  child has completed. The code chains each build on \<^verbatim>\<open>depMetadata[depMetadata.length - 1]\<close>,
  the promise pushed last, and that is the placeholder's promise when the previous link
  was a repeat: it is resolved already, so the build chained on it does not wait. With R
  importing B, B and C the build of C starts before the build of B is done.
\<close>

theorem C5_build_not_serialized:
  "(let s = serial2 in
     walkLog s = [Start ''R'', Start ''B'', Start ''C'', Done ''B'', Done ''C'', Done ''R'']
     \<and> queue s = []
     \<and> map meta_href (heap s) = [None, Some ''R'', Some ''B'', Some ''C'']
     \<and> meta_imports (heap s ! 1) = Some [Ref 2, Placeholder, Ref 3])"
  by (simp add: serial2_def serial1_def serial0_def eval Let_def cong: let_weak_cong)

section \<open>Repeated addresses\<close>

text \<open>R imports B and C, and C imports B twice. When the walk reaches C, B has been
  visited under R: both links of C get the placeholder, the first one too.\<close>

theorem C6_first_occurrence_placeholder:
  "(let s = first2 in
      pstate (promises s ! 16) = Fulfilled (Ref 1)
      \<and> map (\<lambda>m. (meta_href m, meta_imports m)) (heap s) =
          [(None, None), (Some ''R'', Some [Ref 2, Ref 3]), (Some ''B'', Some []),
           (Some ''C'', Some [Placeholder, Placeholder])])"
  by (simp add: first2_def first1_def first0_def eval Let_def cong: let_weak_cong)

text \<open>
  C6, as the code has it. The loop of lines 212 to 226 goes through the addresses of a
  document in order and leaves one promise for each. An address gets the placeholder
  exactly when it is marked in \<^verbatim>\<open>loadedHrefs\<close> when its turn comes, that is when it was
  marked before the loop (by a document built earlier in the same call of
  \<^verbatim>\<open>metadataTree\<close>, or because the name is inherited from \<^verbatim>\<open>Object.prototype\<close>) or is the
  address of an earlier link of this document. Otherwise its promise is pending and the
  callback that builds the subtree of the address is registered for it. After the loop every
  address of the document is marked. So of several links to one address all but the first
  get the placeholder, and the first is expanded unless the address was visited before.
\<close>

theorem C6_placeholder_iff_visited:
  assumes "lh < length (loadedHrefs s)" and "i < length hrefs"
  shows "(let r = forEach_href lh hrefs [] s; s' = snd r; p = fst r ! i;
              visited = (loaded (loadedHrefs s ! lh) (hrefs ! i)
                         \<or> hrefs ! i \<in> set (take i hrefs))
          in length (fst r) = length hrefs
             \<and> p < length (promises s')
             \<and> (visited \<longrightarrow> pstate (promises s' ! p) = Fulfilled Placeholder)
             \<and> (\<not> visited \<longrightarrow>
                  pstate (promises s' ! p) = Pending
                  \<and> registered (KChild (hrefs ! i) lh) p s')
             \<and> (\<forall>x. loaded (loadedHrefs s' ! lh) x =
                      (loaded (loadedHrefs s ! lh) x \<or> x \<in> set hrefs))
             \<and> call env (KChild (hrefs ! i) lh) v t =
                 metadataTree' (read_html t (hrefs ! i)) lh t)"
proof -
  let ?r = "forEach_href lh hrefs [] s"
  let ?flags = "visited_flags (loadedHrefs s ! lh) hrefs"
  from forEach_href_slots [OF assms(1), of "[]" hrefs] obtain new where new:
    "fst ?r = new"
    "list_all2 (\<lambda>hv p. slot lh (snd ?r) (fst hv) (snd hv) p) (zip hrefs ?flags) new"
    "loadedHrefs (snd ?r) ! lh =
       foldl (\<lambda>m h. if loaded m h then m else m(h \<mapsto> True)) (loadedHrefs s ! lh) hrefs"
    by auto
  have len: "length new = length hrefs"
    using list_all2_lengthD [OF new(2)] by simp
  have "slot lh (snd ?r) (fst (zip hrefs ?flags ! i)) (snd (zip hrefs ?flags ! i)) (new ! i)"
    using list_all2_nthD [OF new(2), of i] assms(2) by simp
  then have "slot lh (snd ?r) (hrefs ! i) (?flags ! i) (new ! i)"
    using assms(2) by simp
  then have sl: "slot lh (snd ?r) (hrefs ! i)
      (loaded (loadedHrefs s ! lh) (hrefs ! i) \<or> hrefs ! i \<in> set (take i hrefs)) (new ! i)"
    using visited_flags_nth [OF assms(2), of "loadedHrefs s ! lh"] by simp
  have c: "call env (KChild (hrefs ! i) lh) v t = metadataTree' (read_html t (hrefs ! i)) lh t"
    by (simp add: call_def child_callback_def)
  show ?thesis
    using sl len c
    unfolding Let_def new(1) new(3) visited_flags_marks slot_def
    by auto
qed

theorem C6_placeholder_iff_visited_witness:
  "(let s = (init False True)\<lparr>loadedHrefs := [Map.empty]\<rparr>;
        r = forEach_href 0 [''B'', ''B''] [] s
    in fst r = [1, 2]
       \<and> map pstate (promises (snd r)) = [Fulfilled VTrue, Pending, Fulfilled Placeholder]
       \<and> queue (snd r) = [(KChild ''B'' 0, 1, Fulfilled VTrue)]
       \<and> registered (KChild ''B'' 0) 1 (snd r)
       \<and> loaded (loadedHrefs (snd r) ! 0) ''B'')"
  using C6_placeholder_iff_visited [of 0 "(init False True)\<lparr>loadedHrefs := [Map.empty]\<rparr>" 0
      "[''B'', ''B'']" cycle_env Undefined "init False True"]
    C6_placeholder_iff_visited [of 0 "(init False True)\<lparr>loadedHrefs := [Map.empty]\<rparr>" 1
      "[''B'', ''B'']" cycle_env Undefined "init False True"]
  by (simp add: registered_def eval Let_def cong: let_weak_cong)

section \<open>The aggregate of a document\<close>

text \<open>When every script's result carries both lists the aggregate is their concatenation,
  in script order and with nothing removed.\<close>

lemma reduce_heap:
  "snd (reduce acc ms s) = s\<lparr>heap := heap (snd (reduce acc ms s))\<rparr>
   \<and> take (length (heap s)) (heap (snd (reduce acc ms s))) = heap s"
proof (induction ms arbitrary: acc s)
  case Nil
  then show ?case by simp
next
  case (Cons m ms)
  have "take (length (heap s)) (heap (snd (reduce (length (heap s)) ms (snd (reduceMetadata acc m s)))))
        = take (length (heap s)) (take (Suc (length (heap s)))
            (heap (snd (reduce (length (heap s)) ms (snd (reduceMetadata acc m s))))))"
    by (simp add: min_def)
  also have "\<dots> = heap s"
    using Cons.IH [of "length (heap s)" "snd (reduceMetadata acc m s)"]
    by (simp add: reduceMetadata_def)
  finally show ?case
    using Cons.IH [of "length (heap s)" "snd (reduceMetadata acc m s)"]
    by (simp add: reduce.simps reduceMetadata_def case_prod_beta)
qed

lemma reduce_concat:
  assumes "acc < length (heap s)"
    and "list_all (\<lambda>r. js_elements r \<noteq> None \<and> js_modules r \<noteq> None) rs"
  shows "elements (heap (snd (reduce acc (map Js rs) s)) ! fst (reduce acc (map Js rs) s)) =
           elements (heap s ! acc) @ map Some (concat (map (\<lambda>r. the (js_elements r)) rs))
         \<and> modules (heap (snd (reduce acc (map Js rs) s)) ! fst (reduce acc (map Js rs) s)) =
           modules (heap s ! acc) @ map Some (concat (map (\<lambda>r. the (js_modules r)) rs))
         \<and> fst (reduce acc (map Js rs) s) < length (heap (snd (reduce acc (map Js rs) s)))"
  using assms
proof (induction rs arbitrary: acc s)
  case Nil
  then show ?case by simp
next
  case (Cons r rs)
  let ?s1 = "snd (reduceMetadata acc (Js r) s)"
  have a: "length (heap s) < length (heap ?s1)"
    by (simp add: reduceMetadata_def)
  have rest: "list_all (\<lambda>r. js_elements r \<noteq> None \<and> js_modules r \<noteq> None) rs"
    using Cons.prems by simp
  obtain es ms where r: "js_elements r = Some es" "js_modules r = Some ms"
    using Cons.prems by auto
  have new: "heap ?s1 ! length (heap s) =
      \<lparr>elements = elements (heap s ! acc) @ map Some es,
       modules = modules (heap s ! acc) @ map Some ms,
       meta_imports = None, meta_href = None, meta_html = None\<rparr>"
    by (simp add: reduceMetadata_def get_elements_def get_modules_def concat_js_def r)
  show ?case
    using Cons.IH [OF a rest] new r
    by (simp add: reduce.simps reduceMetadata_def case_prod_beta)
qed

text \<open>
  C7. The claim asks that the aggregate's \<^verbatim>\<open>elements\<close> is the concatenation of the scripts'
  elements. \<^verbatim>\<open>_processScript\<close> allows for a result of \<^verbatim>\<open>jsParse\<close> without an
  \<^verbatim>\<open>elements\<close> list (\<^verbatim>\<open>if (parsedJs.elements)\<close>), but \<^verbatim>\<open>reduceMetadata\<close> does not:
  \<^verbatim>\<open>m1.elements.concat(undefined)\<close> appends the value \<^verbatim>\<open>undefined\<close>. For one script with the
  result \<^verbatim>\<open>{modules: []}\<close> the aggregate's \<^verbatim>\<open>elements\<close> is \<^verbatim>\<open>[undefined]\<close>, not the empty
  list; with a second script that declares \<open>x-a\<close> it is \<^verbatim>\<open>[undefined, x-a]\<close>.
\<close>

theorem C7_concat_undefined:
  "reduce_callback [Js no_elements] (init False False) =
     (Inr (Ref 1),
      init False False\<lparr>heap := [EMPTY_METADATA,
        \<lparr>elements = [None], modules = [], meta_imports = None, meta_href = None,
         meta_html = None\<rparr>]\<rparr>)
   \<and> elements (heap (snd (reduce_callback [Js no_elements, Js (declares [''x-a''])]
         (init False False))) ! 2) =
       [None, Some \<lparr>el_is = ''x-a'', domModule = None\<rparr>]"
  by (simp add: eval Let_def cong: let_weak_cong)

section \<open>Documents without scripts\<close>

lemma parseHTML_no_scripts:
  assumes "\<not> has_key href (this_html s)" and "importParse env htmlImport = Inr parsed"
    and "p_script parsed = None"
  shows "\<exists>m. parseHTML env htmlImport href s = (Inr (DocNode m), snd (parseHTML env htmlImport href s))
           \<and> this_html (snd (parseHTML env htmlImport href s)) href = Some m
           \<and> pstate (promises (snd (parseHTML env htmlImport href s)) ! metadataLoaded m) =
               Fulfilled (Ref 0)"
proof -
  let ?ra = "Promise_resolve (Ref 0) s"
  let ?rb = "Promise_resolve (Parsed parsed) ((snd ?ra)\<lparr>parseLog := parseLog (snd ?ra) @ [href]\<rparr>)"
  let ?i = "imports_part env parsed href [] (snd ?rb)"
  let ?r = "register_html href (fst ?rb) (fst ?ra) (fst ?i) (fst (snd ?i)) (snd (snd ?i))"
  have p: "parseHTML env htmlImport href s = (Inr (DocNode (fst ?r)), snd ?r)"
    unfolding parseHTML_eval Let_def scripts_part_eval
    by (simp add: assms)
  have "extends (snd ?rb) (snd ?r)"
    by (rule extends_trans [OF extends_imports_part extends_register_html])
  moreover have "fst ?ra < length (promises (snd ?rb))"
    and "pstate (promises (snd ?rb) ! fst ?ra) = Fulfilled (Ref 0)"
    by (simp_all add: Promise_resolve_def newPromise_def nth_append)
  ultimately have "pstate (promises (snd ?r) ! fst ?ra) = Fulfilled (Ref 0)"
    by (simp add: extends_pstate)
  then show ?thesis
    using register_html_entry [of href "fst ?rb" "fst ?ra" "fst ?i" "fst (snd ?i)" "snd (snd ?i)"]
    by (simp add: p)
qed

lemma processScripts_Nil:
  "fst (processScripts env [] href s) = Inr (Suc (length (promises s)))
   \<and> length (promises (snd (processScripts env [] href s))) = length (promises s) + 2
   \<and> pstate (promises (snd (processScripts env [] href s)) ! (Suc (length (promises s)))) = Pending
   \<and> (KReduce, Suc (length (promises s)), Fulfilled (Arr []))
       \<in> set (queue (snd (processScripts env [] href s)))"
  by (simp add: processScripts_def Promise_all_def then_p_def newPromise_def
        settle_def enqueue_def subscribe_def nth_append Let_def)

lemma parseHTML_empty_scripts:
  assumes "\<not> has_key href (this_html s)" and "importParse env htmlImport = Inr parsed"
    and "p_script parsed = Some []"
  shows "\<exists>m. parseHTML env htmlImport href s = (Inr (DocNode m), snd (parseHTML env htmlImport href s))
           \<and> this_html (snd (parseHTML env htmlImport href s)) href = Some m
           \<and> metadataLoaded m < length (promises (snd (parseHTML env htmlImport href s)))
           \<and> pstate (promises (snd (parseHTML env htmlImport href s)) ! metadataLoaded m) = Pending
           \<and> (KReduce, metadataLoaded m, Fulfilled (Arr []))
               \<in> set (queue (snd (parseHTML env htmlImport href s)))"
proof -
  let ?ra = "Promise_resolve (Ref 0) s"
  let ?rb = "Promise_resolve (Parsed parsed) ((snd ?ra)\<lparr>parseLog := parseLog (snd ?ra) @ [href]\<rparr>)"
  let ?rc = "processScripts env [] href (snd ?rb)"
  let ?q = "Suc (length (promises (snd ?rb)))"
  let ?i = "imports_part env parsed href [Prom ?q] (snd ?rc)"
  let ?r = "register_html href (fst ?rb) ?q (fst ?i) (fst (snd ?i)) (snd (snd ?i))"
  note ps = processScripts_Nil [of env href "snd ?rb"]
  have p: "parseHTML env htmlImport href s = (Inr (DocNode (fst ?r)), snd ?r)"
    unfolding parseHTML_eval Let_def scripts_part_eval
    using ps by (simp add: assms)
  have e: "extends (snd ?rc) (snd ?r)"
    by (rule extends_trans [OF extends_imports_part extends_register_html])
  have "pstate (promises (snd ?r) ! ?q) = Pending"
    and "(KReduce, ?q, Fulfilled (Arr [])) \<in> set (queue (snd ?r))"
    and "?q < length (promises (snd ?r))"
    using ps extends_pstate [OF e, of ?q] extends_queue [OF e] e
    by (simp_all add: extends_def)
  then show ?thesis
    using register_html_entry [of href "fst ?rb" ?q "fst ?i" "fst (snd ?i)" "snd (snd ?i)"]
    by (simp add: p)
qed

lemma runJob_KReduce_empty:
  assumes "q < length (promises s)" and "pstate (promises s ! q) = Pending"
  shows "pstate (promises (runJob env (KReduce, q, Fulfilled (Arr [])) s) ! q) = Fulfilled (Ref 0)"
  using assms
  by (simp add: runJob_def finish_def call_def reduce_callback_def resolve_def settle_def
      enqueue_def)

lemma tree3_callback_heap:
  "fst (tree3_callback m a importMetadata s) = Inr (Prom (length (promises s)))
   \<and> heap (snd (tree3_callback m a importMetadata s)) =
       (heap s)[a := (heap s ! a)\<lparr>meta_imports := Some importMetadata,
                                   meta_href := Some (doc_href m)\<rparr>]"
proof -
  have "heap (snd (then_p p k s')) = heap s'" for p k s'
    by (cases "pstate ((promises s' @ [\<lparr>pstate = Pending, reactions = []\<rparr>]) ! p)")
      (simp_all add: then_p_def newPromise_def subscribe_def enqueue_def)
  moreover have "fst (then_p p k s') = length (promises s')" for p k s'
    by (simp add: then_p_def newPromise_def)
  ultimately show ?thesis
    by (simp add: tree3_callback_def case_prod_beta)
qed

lemma tree4_callback_heap:
  assumes "fst (attach_each parsedHtml (elements (heap s ! a))) = None"
  shows "fst (tree4_callback m a parsedHtml s) = Inr (Ref a)
         \<and> heap (snd (tree4_callback m a parsedHtml s)) =
             (heap s)[a := (heap s ! a)
                \<lparr>elements := snd (attach_each parsedHtml (elements (heap s ! a))),
                 meta_html := Some parsedHtml\<rparr>]"
  using assms by (simp add: tree4_callback_def case_prod_beta Let_def)

lemma empty2_run:
  "(let s = empty2 in
      length (heap s) = 1
      \<and> pstate (promises s ! 8) = Fulfilled (Ref 0)
      \<and> meta_href (heap s ! 0) = Some ''R''
      \<and> meta_imports (heap s ! 0) = Some [Ref 0]
      \<and> walkLog s = [Start ''R'', Start ''B'', Done ''B'', Done ''R''])"
  by (simp add: empty2_def empty1_def empty0_def eval Let_def cong: let_weak_cong)

text \<open>
  C10. (1) A document without script nodes gets the promise of line 111,
  \<^verbatim>\<open>Promise.resolve(EMPTY_METADATA)\<close>, as its \<^verbatim>\<open>metadataLoaded\<close>: it is fulfilled with
  address 0, the one shared object. That is so when the parser gives no script list; when
  it gives an empty one, \<^verbatim>\<open>_processScripts\<close> leaves \<^verbatim>\<open>metadataLoaded\<close> pending with the
  job of \<^verbatim>\<open>[].reduce(reduceMetadata, EMPTY_METADATA)\<close> queued, and running that job fulfils
  it with address 0 too. (2) The tree builder writes \<^verbatim>\<open>imports\<close> and \<^verbatim>\<open>href\<close> (line 228),
  then the bound elements and \<^verbatim>\<open>html\<close> (lines 231 to 237), onto the object at the address
  its \<^verbatim>\<open>metadataLoaded\<close> resolved to, and returns that address as the document's node.
  (3) Hence script-less documents share one node, and what is written for the one built
  later replaces what was written for the other: for R importing B, both without scripts,
  the store holds a single object when \<^verbatim>\<open>metadataTree()\<close> has resolved (promise 8); it is the
  node of R and of B, it carries the \<^verbatim>\<open>href\<close> of R, which was written last, and it is the
  one member of its own \<^verbatim>\<open>imports\<close>.
\<close>

theorem C10_shared_EMPTY_METADATA:
  "(\<not> has_key href (this_html s) \<and> importParse env htmlImport = Inr parsed
      \<and> p_script parsed = None \<longrightarrow>
      (\<exists>m. parseHTML env htmlImport href s =
             (Inr (DocNode m), snd (parseHTML env htmlImport href s))
           \<and> this_html (snd (parseHTML env htmlImport href s)) href = Some m
           \<and> pstate (promises (snd (parseHTML env htmlImport href s)) ! metadataLoaded m) =
               Fulfilled (Ref 0)))
   \<and> (\<not> has_key href' (this_html s') \<and> importParse env' htmlImport' = Inr parsed'
      \<and> p_script parsed' = Some [] \<longrightarrow>
      (\<exists>m. parseHTML env' htmlImport' href' s' =
             (Inr (DocNode m), snd (parseHTML env' htmlImport' href' s'))
           \<and> this_html (snd (parseHTML env' htmlImport' href' s')) href' = Some m
           \<and> metadataLoaded m < length (promises (snd (parseHTML env' htmlImport' href' s')))
           \<and> pstate (promises (snd (parseHTML env' htmlImport' href' s')) ! metadataLoaded m) =
               Pending
           \<and> (KReduce, metadataLoaded m, Fulfilled (Arr []))
               \<in> set (queue (snd (parseHTML env' htmlImport' href' s')))))
   \<and> (q < length (promises t) \<and> pstate (promises t ! q) = Pending \<longrightarrow>
      pstate (promises (runJob env'' (KReduce, q, Fulfilled (Arr [])) t) ! q) = Fulfilled (Ref 0))
   \<and> (fst (tree3_callback m3 a3 importMetadata t3) = Inr (Prom (length (promises t3)))
      \<and> heap (snd (tree3_callback m3 a3 importMetadata t3)) =
          (heap t3)[a3 := (heap t3 ! a3)\<lparr>meta_imports := Some importMetadata,
                                          meta_href := Some (doc_href m3)\<rparr>])
   \<and> (fst (attach_each parsedHtml (elements (heap t4 ! a4))) = None \<longrightarrow>
      fst (tree4_callback m4 a4 parsedHtml t4) = Inr (Ref a4)
      \<and> heap (snd (tree4_callback m4 a4 parsedHtml t4)) =
          (heap t4)[a4 := (heap t4 ! a4)
             \<lparr>elements := snd (attach_each parsedHtml (elements (heap t4 ! a4))),
              meta_html := Some parsedHtml\<rparr>])
   \<and> (let s = empty2 in
        length (heap s) = 1
        \<and> pstate (promises s ! 8) = Fulfilled (Ref 0)
        \<and> meta_href (heap s ! 0) = Some ''R''
        \<and> meta_imports (heap s ! 0) = Some [Ref 0]
        \<and> walkLog s = [Start ''R'', Start ''B'', Done ''B'', Done ''R''])"
proof -
  have 1: "\<not> has_key href (this_html s) \<and> importParse env htmlImport = Inr parsed
      \<and> p_script parsed = None \<longrightarrow>
      (\<exists>m. parseHTML env htmlImport href s =
             (Inr (DocNode m), snd (parseHTML env htmlImport href s))
           \<and> this_html (snd (parseHTML env htmlImport href s)) href = Some m
           \<and> pstate (promises (snd (parseHTML env htmlImport href s)) ! metadataLoaded m) =
               Fulfilled (Ref 0))"
    using parseHTML_no_scripts [of href s env htmlImport parsed] by blast
  have 2: "\<not> has_key href' (this_html s') \<and> importParse env' htmlImport' = Inr parsed'
      \<and> p_script parsed' = Some [] \<longrightarrow>
      (\<exists>m. parseHTML env' htmlImport' href' s' =
             (Inr (DocNode m), snd (parseHTML env' htmlImport' href' s'))
           \<and> this_html (snd (parseHTML env' htmlImport' href' s')) href' = Some m
           \<and> metadataLoaded m < length (promises (snd (parseHTML env' htmlImport' href' s')))
           \<and> pstate (promises (snd (parseHTML env' htmlImport' href' s')) ! metadataLoaded m) =
               Pending
           \<and> (KReduce, metadataLoaded m, Fulfilled (Arr []))
               \<in> set (queue (snd (parseHTML env' htmlImport' href' s'))))"
    using parseHTML_empty_scripts [of href' s' env' htmlImport' parsed'] by blast
  have 3: "q < length (promises t) \<and> pstate (promises t ! q) = Pending \<longrightarrow>
      pstate (promises (runJob env'' (KReduce, q, Fulfilled (Arr [])) t) ! q) = Fulfilled (Ref 0)"
    using runJob_KReduce_empty [of q t env''] by blast
  have 5: "fst (attach_each parsedHtml (elements (heap t4 ! a4))) = None \<longrightarrow>
      fst (tree4_callback m4 a4 parsedHtml t4) = Inr (Ref a4)
      \<and> heap (snd (tree4_callback m4 a4 parsedHtml t4)) =
          (heap t4)[a4 := (heap t4 ! a4)
             \<lparr>elements := snd (attach_each parsedHtml (elements (heap t4 ! a4))),
              meta_html := Some parsedHtml\<rparr>]"
    using tree4_callback_heap [of parsedHtml t4 a4 m4] by blast
  show ?thesis
    by (rule conjI [OF 1 conjI [OF 2 conjI [OF 3 conjI [OF tree3_callback_heap
          conjI [OF 5 empty2_run]]]]])
qed

theorem C10_shared_EMPTY_METADATA_witness:
  "(let e = site_env [(''<B>'', bare []), (''<C>'', page [] [])] [];
        s = init False True;
        b = snd (parseHTML e ''<B>'' ''B'' s);
        c = snd (parseHTML e ''<C>'' ''C'' s);
        t = snd (newPromise Pending s)
    in this_html b ''B'' =
         Some \<lparr>doc_href = ''B'', htmlLoaded = 1, metadataLoaded = 0, depsLoaded = 4\<rparr>
       \<and> pstate (promises b ! 0) = Fulfilled (Ref 0)
       \<and> this_html c ''C'' =
         Some \<lparr>doc_href = ''C'', htmlLoaded = 1, metadataLoaded = 3, depsLoaded = 7\<rparr>
       \<and> pstate (promises c ! 3) = Pending
       \<and> (KReduce, 3, Fulfilled (Arr [])) \<in> set (queue c)
       \<and> pstate (promises (runJob e (KReduce, 0, Fulfilled (Arr [])) t) ! 0) = Fulfilled (Ref 0)
       \<and> fst (tree4_callback \<lparr>doc_href = ''B'', htmlLoaded = 1, metadataLoaded = 0, depsLoaded = 4\<rparr>
              0 (bare []) b) = Inr (Ref 0))"
  using C10_shared_EMPTY_METADATA [of "''B''" "init False True"
      "site_env [(''<B>'', bare []), (''<C>'', page [] [])] []" "''<B>''" "bare []"
      "''C''" "init False True" "site_env [(''<B>'', bare []), (''<C>'', page [] [])] []"
      "''<C>''" "page [] []"
      0 "snd (newPromise Pending (init False True))"
      "site_env [(''<B>'', bare []), (''<C>'', page [] [])] []"
      "\<lparr>doc_href = ''B'', htmlLoaded = 1, metadataLoaded = 0, depsLoaded = 4\<rparr>" 0 "[]"
      "init False True"
      "bare []" "snd (parseHTML (site_env [(''<B>'', bare []), (''<C>'', page [] [])] []) ''<B>'' ''B''
          (init False True))" 0
      "\<lparr>doc_href = ''B'', htmlLoaded = 1, metadataLoaded = 0, depsLoaded = 4\<rparr>"]
  by (simp add: eval Let_def cong: let_weak_cong)

end
